theory Spec2Isabelle
  imports Complex_Main
begin

section \<open>JavaScript numbers, as far as the report uses them\<close>

text \<open>
  Every number the component handles is an integer-valued double, \<open>NaN\<close> or an infinity:
  the results of \<open>parseInt\<close>, of \<open>Math.max\<close>/\<open>Math.min\<close> against integer literals, of
  \<open>+ 1\<close> and \<open>- 1\<close>, and the record count \<open>total\<close> of a response.  \<open>Fin i\<close> is the double
  whose value is the integer \<open>i\<close> (negative zero is not told apart from zero: the code
  never divides by a zero it computed).
\<close>

datatype jsnum = NaN | NegInf | PosInf | Fin int

function bit_length :: "int \<Rightarrow> nat" where
  "bit_length n = (if n \<le> 0 then 0 else Suc (bit_length (n div 2)))"
  by pat_completeness auto
termination
  by (relation "measure nat") auto

declare bit_length.simps [simp del]

text \<open>
  \<open>Number(i)\<close> for a mathematical integer \<open>i\<close>: the nearest double, ties to the even
  significand of 53 bits, an infinity beyond the largest double.
\<close>

definition round_to_double :: "int \<Rightarrow> jsnum" where
  "round_to_double i =
     (let m = \<bar>i\<bar> in
      if m \<le> 2 ^ 53 then Fin i
      else
        let e = bit_length m - 53;
            q = m div 2 ^ e;
            r = m mod 2 ^ e;
            h = 2 ^ (e - 1);
            q' = (if h < r \<or> (r = h \<and> odd q) then q + 1 else q);
            v = q' * 2 ^ e
        in if 2 ^ 1024 \<le> v then (if i < 0 then NegInf else PosInf)
           else Fin (if i < 0 then - v else v))"

fun js_add :: "jsnum \<Rightarrow> jsnum \<Rightarrow> jsnum" where
  "js_add (Fin a) (Fin b) = round_to_double (a + b)"
| "js_add NaN _ = NaN"
| "js_add _ NaN = NaN"
| "js_add PosInf NegInf = NaN"
| "js_add NegInf PosInf = NaN"
| "js_add PosInf _ = PosInf"
| "js_add _ PosInf = PosInf"
| "js_add NegInf _ = NegInf"
| "js_add _ NegInf = NegInf"

fun js_neg :: "jsnum \<Rightarrow> jsnum" where
  "js_neg NaN = NaN"
| "js_neg PosInf = NegInf"
| "js_neg NegInf = PosInf"
| "js_neg (Fin a) = Fin (- a)"

definition js_sub :: "jsnum \<Rightarrow> jsnum \<Rightarrow> jsnum" where
  "js_sub a b = js_add a (js_neg b)"

text \<open>The relational operators: every comparison with \<open>NaN\<close> is false.\<close>

fun js_lt :: "jsnum \<Rightarrow> jsnum \<Rightarrow> bool" where
  "js_lt NaN _ = False"
| "js_lt _ NaN = False"
| "js_lt (Fin a) (Fin b) = (a < b)"
| "js_lt _ NegInf = False"
| "js_lt NegInf _ = True"
| "js_lt PosInf _ = False"
| "js_lt _ PosInf = True"

definition js_gt :: "jsnum \<Rightarrow> jsnum \<Rightarrow> bool" where
  "js_gt a b = js_lt b a"

definition js_ge :: "jsnum \<Rightarrow> jsnum \<Rightarrow> bool" where
  "js_ge a b = (a \<noteq> NaN \<and> b \<noteq> NaN \<and> \<not> js_lt a b)"

definition Math_max :: "jsnum \<Rightarrow> jsnum \<Rightarrow> jsnum" where
  "Math_max a b = (if a = NaN \<or> b = NaN then NaN else if js_lt a b then b else a)"

definition Math_min :: "jsnum \<Rightarrow> jsnum \<Rightarrow> jsnum" where
  "Math_min a b = (if a = NaN \<or> b = NaN then NaN else if js_lt b a then b else a)"

text \<open>
  \<open>Math.ceil(a / b)\<close>, the only division of the component.  The quotient of two finite
  numbers is a double: the rational \<open>a / b\<close> rounded to the nearest number with a
  significand of 53 bits, ties to the even significand.  \<open>nearest n d\<close> is the integer
  nearest to \<open>n / d\<close>, ties to even, for \<open>0 \<le> n\<close> and \<open>0 < d\<close>.
\<close>

definition nearest :: "int \<Rightarrow> int \<Rightarrow> int" where
  "nearest n d =
     (let q = n div d; r = n mod d
      in if d < 2 * r \<or> (2 * r = d \<and> odd q) then q + 1 else q)"

text \<open>
  The double \<open>a / b\<close> for positive \<open>a\<close> and \<open>b\<close>, as a fraction \<open>(n, d)\<close> whose denominator
  is a power of two.  With \<open>s\<close> the power of two that scales the quotient into
  \<open>[2^52, 2^53]\<close>, the scaled quotient is rounded to an integer and scaled back.  The
  operands are doubles, so that the quotient is not beyond the largest double; below the
  normal range a double has fewer bits than this fraction, with the same floor and the
  same ceiling.
\<close>

definition quotient_double :: "int \<Rightarrow> int \<Rightarrow> int \<times> int" where
  "quotient_double a b =
     (if b \<le> a
      then (let k = bit_length (a div b)
            in if 53 \<le> k then (nearest a (b * 2 ^ (k - 53)) * 2 ^ (k - 53), 1)
               else (nearest (a * 2 ^ (53 - k)) b, 2 ^ (53 - k)))
      else (let j = bit_length (b div a)
            in (nearest (a * 2 ^ (52 + j)) b, 2 ^ (52 + j))))"

fun Math_ceil_div :: "jsnum \<Rightarrow> jsnum \<Rightarrow> jsnum" where
  "Math_ceil_div NaN _ = NaN"
| "Math_ceil_div _ NaN = NaN"
| "Math_ceil_div (Fin a) (Fin b) =
     (if b = 0 then (if a = 0 then NaN else if 0 < a then PosInf else NegInf)
      else if a = 0 then Fin 0
      else (case quotient_double \<bar>a\<bar> \<bar>b\<bar> of
              (n, d) \<Rightarrow> if (0 < a) = (0 < b) then Fin (- ((- n) div d)) else Fin (- (n div d))))"
| "Math_ceil_div (Fin a) _ = Fin 0"
| "Math_ceil_div PosInf (Fin b) = (if b < 0 then NegInf else PosInf)"
| "Math_ceil_div NegInf (Fin b) = (if b < 0 then PosInf else NegInf)"
| "Math_ceil_div _ _ = NaN"

text \<open>Truthiness of a number (\<open>x || 0\<close>): zero and \<open>NaN\<close> are falsy.\<close>

definition truthy_num :: "jsnum \<Rightarrow> bool" where
  "truthy_num x = (x \<noteq> NaN \<and> x \<noteq> Fin 0)"

section \<open>Strings, \<open>parseInt\<close> and \<open>Number.prototype.toString\<close>\<close>

text \<open>
  A string is the sequence of the bytes of its UTF-8 encoding, so that percent-decoding,
  which works on bytes, and the tests of the component, which work on ASCII, act on the
  same representation.  Percent-escapes that decode to bytes which are no UTF-8 are kept
  as those bytes (a browser puts U+FFFD in their place).
\<close>

definition is_digit :: "char \<Rightarrow> bool" where
  "is_digit c = (48 \<le> (of_char c :: nat) \<and> (of_char c :: nat) \<le> 57)"

definition digit_value :: "char \<Rightarrow> int" where
  "digit_value c = int (of_char c) - 48"

definition digits_value :: "string \<Rightarrow> int" where
  "digits_value z = foldl (\<lambda>a c. 10 * a + digit_value c) 0 z"

definition digit_char :: "int \<Rightarrow> char" where
  "digit_char d = char_of (48 + nat d)"

function decimal :: "int \<Rightarrow> string" where
  "decimal m = (if m < 10 then [digit_char m] else decimal (m div 10) @ [digit_char (m mod 10)])"
  by pat_completeness auto
termination
proof (relation "measure nat")
  fix m :: int
  assume "\<not> m < 10"
  then have "m div 10 < m" and "0 < m" by simp_all
  then show "(m div 10, m) \<in> measure nat" by simp
qed simp

declare decimal.simps [simp del]

text \<open>
  The white space that \<open>parseInt\<close> skips (\<open>StrWhiteSpaceChar\<close>): TAB, LF, VT, FF, CR, SP,
  and in UTF-8 U+00A0, U+1680, U+2000 to U+200A, U+2028, U+2029, U+202F, U+205F, U+3000
  and U+FEFF.
\<close>

definition white_space :: "string list" where
  "white_space =
     [[CHR 0x09], [CHR 0x0A], [CHR 0x0B], [CHR 0x0C], [CHR 0x0D], [CHR 0x20],
      [CHR 0xC2, CHR 0xA0], [CHR 0xE1, CHR 0x9A, CHR 0x80],
      [CHR 0xE2, CHR 0x80, CHR 0x80], [CHR 0xE2, CHR 0x80, CHR 0x81],
      [CHR 0xE2, CHR 0x80, CHR 0x82], [CHR 0xE2, CHR 0x80, CHR 0x83],
      [CHR 0xE2, CHR 0x80, CHR 0x84], [CHR 0xE2, CHR 0x80, CHR 0x85],
      [CHR 0xE2, CHR 0x80, CHR 0x86], [CHR 0xE2, CHR 0x80, CHR 0x87],
      [CHR 0xE2, CHR 0x80, CHR 0x88], [CHR 0xE2, CHR 0x80, CHR 0x89],
      [CHR 0xE2, CHR 0x80, CHR 0x8A], [CHR 0xE2, CHR 0x80, CHR 0xA8],
      [CHR 0xE2, CHR 0x80, CHR 0xA9], [CHR 0xE2, CHR 0x80, CHR 0xAF],
      [CHR 0xE2, CHR 0x81, CHR 0x9F], [CHR 0xE3, CHR 0x80, CHR 0x80],
      [CHR 0xEF, CHR 0xBB, CHR 0xBF]]"

definition starts_with :: "'a list \<Rightarrow> 'a list \<Rightarrow> bool" where
  "starts_with s w = (take (length w) s = w)"

definition ends_with :: "'a list \<Rightarrow> 'a list \<Rightarrow> bool" where
  "ends_with s w = (length w \<le> length s \<and> drop (length s - length w) s = w)"

definition white_space_length :: "string \<Rightarrow> nat" where
  "white_space_length s = (case find (starts_with s) white_space of None \<Rightarrow> 0 | Some w \<Rightarrow> length w)"

lemma find_holds: "find P xs = Some x \<Longrightarrow> P x"
  by (induction xs) (auto split: if_splits)

lemma white_space_length_le: "white_space_length s \<le> length s"
proof (cases "find (starts_with s) white_space")
  case None
  then show ?thesis by (simp add: white_space_length_def)
next
  case (Some w)
  then have "starts_with s w" by (rule find_holds)
  then have "length (take (length w) s) = length w"
    by (simp only: starts_with_def)
  then have "length w \<le> length s" by simp
  with Some show ?thesis by (simp add: white_space_length_def)
qed

function trimStart :: "string \<Rightarrow> string" where
  "trimStart s = (if white_space_length s = 0 then s else trimStart (drop (white_space_length s) s))"
  by pat_completeness auto
termination
proof (relation "measure length")
  fix s :: string
  assume "white_space_length s \<noteq> 0"
  moreover have "white_space_length s \<le> length s" by (rule white_space_length_le)
  ultimately show "(drop (white_space_length s) s, s) \<in> measure length" by simp
qed simp

declare trimStart.simps [simp del]

text \<open>
  \<open>parseInt(s, 10)\<close>: skip white space, read a sign, read decimal digits up to the first
  other character; no digit gives \<open>NaN\<close>.  The value is the double nearest to the integer
  read (beyond twenty significant digits ECMAScript lets an engine round differently; the
  engines in use round correctly, as here).
\<close>

definition parseInt :: "string \<Rightarrow> jsnum" where
  "parseInt s =
     (let s1 = trimStart s;
          neg = starts_with s1 ''-'';
          s2 = (if starts_with s1 ''-'' \<or> starts_with s1 ''+'' then tl s1 else s1);
          z = takeWhile is_digit s2
      in if z = [] then NaN
         else round_to_double (if neg then - digits_value z else digits_value z))"

text \<open>
  \<open>Number::toString\<close> for the numbers of the model.  Below \<open>10^21\<close> the digits of the
  integer; from \<open>10^21\<close> on the exponent form with the fewest significant digits that
  still read back as the same double (the closest such decimal, the even one on a tie).
\<close>

definition strip_zeros :: "string \<Rightarrow> string" where
  "strip_zeros ds = rev (dropWhile (\<lambda>c. c = CHR ''0'') (rev ds))"

definition shortest_candidate :: "int \<Rightarrow> nat \<Rightarrow> int option" where
  "shortest_candidate m k =
     (let d = length (decimal m);
          p = 10 ^ (d - k);
          lo = (m div p) * p;
          hi = lo + p;
          okl = (round_to_double lo = Fin m);
          okh = (round_to_double hi = Fin m)
      in if okl \<and> okh then
           (if m - lo < hi - m then Some lo
            else if hi - m < m - lo then Some hi
            else if even (m div p) then Some lo else Some hi)
         else if okl then Some lo
         else if okh then Some hi
         else None)"

definition shortest_decimal :: "int \<Rightarrow> int" where
  "shortest_decimal m =
     (case List.map_filter (shortest_candidate m) [1 ..< 18] of [] \<Rightarrow> m | v # _ \<Rightarrow> v)"

definition exponent_form :: "int \<Rightarrow> string" where
  "exponent_form m =
     (let ds = decimal (shortest_decimal m);
          s = strip_zeros ds
      in hd s # (if tl s = [] then [] else CHR ''.'' # tl s) @ ''e+'' @ decimal (int (length ds) - 1))"

definition magnitude_toString :: "int \<Rightarrow> string" where
  "magnitude_toString m = (if m < 10 ^ 21 then decimal m else exponent_form m)"

fun Number_toString :: "jsnum \<Rightarrow> string" where
  "Number_toString NaN = ''NaN''"
| "Number_toString PosInf = ''Infinity''"
| "Number_toString NegInf = ''-Infinity''"
| "Number_toString (Fin i) = (if i < 0 then CHR ''-'' # magnitude_toString (- i) else magnitude_toString i)"

section \<open>\<open>URLSearchParams\<close>\<close>

text \<open>
  The object is its list of name-value pairs.  The constructor parses
  \<open>application/x-www-form-urlencoded\<close> text after dropping one leading \<open>?\<close>;
  \<open>toString\<close> is the serializer of the same format.
\<close>

type_synonym params = "(string \<times> string) list"

definition hex_digit :: "nat \<Rightarrow> char" where
  "hex_digit n = (if n < 10 then char_of (48 + n) else char_of (55 + n))"

definition hex_value :: "char \<Rightarrow> nat option" where
  "hex_value c =
     (let n = (of_char c :: nat) in
      if 48 \<le> n \<and> n \<le> 57 then Some (n - 48)
      else if 65 \<le> n \<and> n \<le> 70 then Some (n - 55)
      else if 97 \<le> n \<and> n \<le> 102 then Some (n - 87)
      else None)"

text \<open>The bytes the serializer leaves as they are: ASCII letters and digits, \<open>* - . _\<close>.\<close>

definition unreserved :: "char \<Rightarrow> bool" where
  "unreserved c =
     (let n = (of_char c :: nat) in
      (48 \<le> n \<and> n \<le> 57) \<or> (65 \<le> n \<and> n \<le> 90) \<or> (97 \<le> n \<and> n \<le> 122) \<or>
      n = 42 \<or> n = 45 \<or> n = 46 \<or> n = 95)"

definition encode_byte :: "char \<Rightarrow> string" where
  "encode_byte c =
     (if c = CHR '' '' then ''+''
      else if unreserved c then [c]
      else [CHR ''%'', hex_digit (of_char c div 16), hex_digit (of_char c mod 16)])"

definition urlencode :: "string \<Rightarrow> string" where
  "urlencode s = concat (map encode_byte s)"

fun percent_decode :: "string \<Rightarrow> string" where
  "percent_decode [] = []"
| "percent_decode [c] = [c]"
| "percent_decode [c, d] = [c, d]"
| "percent_decode (c # h # l # rest) =
     (if c = CHR ''%'' \<and> hex_value h \<noteq> None \<and> hex_value l \<noteq> None
      then char_of (16 * the (hex_value h) + the (hex_value l)) # percent_decode rest
      else c # percent_decode (h # l # rest))"

definition plus_to_space :: "string \<Rightarrow> string" where
  "plus_to_space s = map (\<lambda>c. if c = CHR ''+'' then CHR '' '' else c) s"

definition urldecode :: "string \<Rightarrow> string" where
  "urldecode s = percent_decode (plus_to_space s)"

fun split_on :: "'a \<Rightarrow> 'a list \<Rightarrow> 'a list list" where
  "split_on d [] = [[]]"
| "split_on d (c # cs) =
     (if c = d then [] # split_on d cs
      else (case split_on d cs of [] \<Rightarrow> [[c]] | w # ws \<Rightarrow> (c # w) # ws))"

fun join_with :: "'a \<Rightarrow> 'a list list \<Rightarrow> 'a list" where
  "join_with d [] = []"
| "join_with d [x] = x"
| "join_with d (x # y # ys) = x @ d # join_with d (y # ys)"

definition parse_pair :: "string \<Rightarrow> string \<times> string" where
  "parse_pair bytes =
     (urldecode (takeWhile (\<lambda>c. c \<noteq> CHR ''='') bytes),
      urldecode (drop 1 (dropWhile (\<lambda>c. c \<noteq> CHR ''='') bytes)))"

definition urlencoded_parse :: "string \<Rightarrow> params" where
  "urlencoded_parse input = map parse_pair (filter (\<lambda>bytes. bytes \<noteq> []) (split_on CHR ''&'' input))"

definition URLSearchParams :: "string \<Rightarrow> params" where
  "URLSearchParams init = urlencoded_parse (if starts_with init ''?'' then tl init else init)"

definition pair_text :: "string \<times> string \<Rightarrow> string" where
  "pair_text nv = urlencode (fst nv) @ CHR ''='' # urlencode (snd nv)"

definition params_toString :: "params \<Rightarrow> string" where
  "params_toString ps = join_with CHR ''&'' (map pair_text ps)"

definition params_get :: "params \<Rightarrow> string \<Rightarrow> string option" where
  "params_get ps name = map_of ps name"

definition params_append :: "string \<Rightarrow> string \<Rightarrow> params \<Rightarrow> params" where
  "params_append name v ps = ps @ [(name, v)]"

fun replace_first :: "string \<Rightarrow> string \<Rightarrow> params \<Rightarrow> params" where
  "replace_first name v [] = []"
| "replace_first name v ((n, w) # ps) =
     (if n = name then (n, v) # filter (\<lambda>(n', _). n' \<noteq> name) ps
      else (n, w) # replace_first name v ps)"

definition params_set :: "string \<Rightarrow> string \<Rightarrow> params \<Rightarrow> params" where
  "params_set name v ps =
     (if map_of ps name = None then ps @ [(name, v)] else replace_first name v ps)"

section \<open>Plain objects used as dictionaries\<close>

text \<open>
  An object \<open>{}\<close> is the list of its own properties in the order in which
  \<open>Object.entries\<close> and the spread enumerate them: keys that are array indices in
  ascending numeric order first, then the other keys in the order of their creation.  An
  array index is a string of digits that is the decimal numeral of its own value, at most
  \<open>2^32 - 2\<close>.
\<close>

type_synonym 'v object = "(string \<times> 'v) list"

definition is_array_index :: "string \<Rightarrow> bool" where
  "is_array_index k =
     (k \<noteq> [] \<and> list_all is_digit k \<and> decimal (digits_value k) = k \<and>
      digits_value k \<le> 4294967294)"

definition Object_entries :: "'v object \<Rightarrow> (string \<times> 'v) list" where
  "Object_entries obj = obj"

fun insert_index :: "string \<Rightarrow> 'v \<Rightarrow> 'v object \<Rightarrow> 'v object" where
  "insert_index k v [] = [(k, v)]"
| "insert_index k v ((k', v') # obj) =
     (if is_array_index k' \<and> digits_value k' < digits_value k
      then (k', v') # insert_index k v obj
      else (k, v) # (k', v') # obj)"

fun replace_value :: "string \<Rightarrow> 'v \<Rightarrow> 'v object \<Rightarrow> 'v object" where
  "replace_value k v [] = []"
| "replace_value k v ((k', v') # obj) =
     (if k' = k then (k', v) # obj else (k', v') # replace_value k v obj)"

text \<open>Defining an own property (a computed key of an object literal, or a plain store).\<close>

definition define_property :: "string \<Rightarrow> 'v \<Rightarrow> 'v object \<Rightarrow> 'v object" where
  "define_property k v obj =
     (if map_of obj k \<noteq> None then replace_value k v obj
      else if is_array_index k then insert_index k v obj
      else obj @ [(k, v)])"

text \<open>
  The names an object literal inherits from \<open>Object.prototype\<close>.  Reading \<open>obj[k]\<close> for
  such a \<open>k\<close> that is not an own property yields a function (for \<open>__proto__\<close> the
  prototype object): a truthy value that is neither iterable nor a \<open>Set\<close>.  The store
  \<open>obj["__proto__"] = v\<close> replaces the prototype and creates no own property.
\<close>

definition Object_prototype_names :: "string list" where
  "Object_prototype_names =
     [''constructor'', ''__defineGetter__'', ''__defineSetter__'', ''hasOwnProperty'',
      ''__lookupGetter__'', ''__lookupSetter__'', ''isPrototypeOf'', ''propertyIsEnumerable'',
      ''toString'', ''valueOf'', ''__proto__'', ''toLocaleString'']"

definition assign :: "string \<Rightarrow> 'v \<Rightarrow> 'v object \<Rightarrow> 'v object" where
  "assign k v obj = (if k = ''__proto__'' then obj else define_property k v obj)"

datatype js_exception = TypeError

text \<open>A \<open>Set\<close> of strings is the list of its members in insertion order.\<close>

definition Set_add :: "string \<Rightarrow> string list \<Rightarrow> string list" where
  "Set_add v s = (if v \<in> set s then s else s @ [v])"

definition new_Set :: "string list \<Rightarrow> string list" where
  "new_Set vs = foldl (\<lambda>s v. Set_add v s) [] vs"

section \<open>The Report component: state and data fetching\<close>

text \<open>
  A filter fragment is a one-key object \<open>{key: [v1, v2, ...]}\<close>; \<open>appliedFilter\<close> is an array of
  fragments.  A column is a \<open>{key, title}\<close> pair and a row a record of rendered fields.
\<close>

type_synonym fragment = "string \<times> string list"
type_synonym column = "string \<times> string"
type_synonym row = "(string \<times> string) list"

text \<open>
  The value of a property that should hold an array, as far as the component and the
  table tell values apart.  \<open>Nullish\<close> is \<open>undefined\<close> (also a property that is absent) or
  \<open>null\<close>; \<open>Falsy\<close> is \<open>false\<close>, a zero or \<open>NaN\<close>; \<open>Text s\<close> is the string \<open>s\<close>; \<open>Truthy\<close> is
  any other value that is no array and has no property \<open>length\<close> or \<open>map\<close> (\<open>true\<close>, a
  number that is not zero, a plain object); \<open>Array xs\<close> is an array, whose elements are
  taken to be records.
\<close>

datatype 'a field = Nullish | Falsy | Text string | Truthy | Array "'a list"

text \<open>The \<open>useState\<close> cells of \<open>Report\<close>, in the order of the source.\<close>

record report =
  snackbarOpen :: bool
  snackbarMessage :: string
  snackbarSeverity :: string
  showLoader :: bool
  pageNumber :: jsnum
  itemsPerPage :: jsnum
  columnTitles :: "column field"
  rowsData :: "row field"
  totalItems :: jsnum
  appliedFilter :: "fragment list"
  filterOpen :: bool
  initialized :: bool

definition showSnackbar :: "string \<Rightarrow> string \<Rightarrow> 'a report_scheme \<Rightarrow> 'a report_scheme" where
  "showSnackbar message severity st =
     st\<lparr>snackbarMessage := message, snackbarSeverity := severity, snackbarOpen := True\<rparr>"

definition closeSnackbar :: "'a report_scheme \<Rightarrow> 'a report_scheme" where
  "closeSnackbar st = st\<lparr>snackbarOpen := False\<rparr>"

text \<open>
  What \<open>await getReport(apiParams)\<close> yields.  \<open>NotAnObject\<close> is any value that fails
  \<open>data && typeof data === "object"\<close> (\<open>null\<close>, \<open>undefined\<close>, a primitive).  An object is read
  through three properties only, \<open>dataMapping\<close>, \<open>[dataKey]\<close> and \<open>total\<close>.  \<open>total\<close> is a
  number, or \<open>None\<close> when the property is absent.
\<close>

datatype response =
  NotAnObject
| Object "column field" "row field" "jsnum option"

text \<open>
  The reason of a rejection is any value.  \<open>NoValue\<close> is the reason \<open>null\<close> or \<open>undefined\<close>.
  \<open>Raised m\<close> is every other reason, \<open>m\<close> being its property \<open>message\<close> as a string, or
  \<open>None\<close> when the reason has no such property (an \<open>Error\<close> has one, a string has none).
\<close>

datatype rejection = NoValue | Raised "string option"

datatype outcome = Fulfilled response | Rejected rejection

text \<open>
  One run of the data-fetching effect closes over the \<open>pageNumber\<close>, \<open>itemsPerPage\<close> and
  \<open>appliedFilter\<close> of the render that started it.
\<close>

record fetch =
  f_pageNumber :: jsnum
  f_itemsPerPage :: jsnum
  f_appliedFilter :: "fragment list"

definition ToNumber :: "jsnum option \<Rightarrow> jsnum" where
  "ToNumber v = (case v of None \<Rightarrow> NaN | Some n \<Rightarrow> n)"

text \<open>\<open>v || []\<close>: the empty string is falsy as well.\<close>

definition or_empty :: "'a field \<Rightarrow> 'a field" where
  "or_empty v =
     (case v of
        Nullish \<Rightarrow> Array []
      | Falsy \<Rightarrow> Array []
      | Text s \<Rightarrow> if s = [] then Array [] else Text s
      | Truthy \<Rightarrow> Truthy
      | Array xs \<Rightarrow> Array xs)"

text \<open>\<open>v?.length === 0\<close>: strings and arrays have a length.\<close>

definition length_is_zero :: "'a field \<Rightarrow> bool" where
  "length_is_zero v = (case v of Text s \<Rightarrow> s = [] | Array xs \<Rightarrow> xs = [] | _ \<Rightarrow> False)"

definition or_zero :: "jsnum option \<Rightarrow> jsnum" where
  "or_zero v = (case v of None \<Rightarrow> Fin 0 | Some n \<Rightarrow> if truthy_num n then n else Fin 0)"

text \<open>
  \<open>fetchData\<close> after the promise is fulfilled with \<open>data\<close>: the \<open>try\<close> block from line 180 on,
  then \<open>finally\<close>.  The setters act on the state current at that moment, the tests read
  the closure \<open>f\<close>.
\<close>

definition fetchData_fulfilled :: "fetch \<Rightarrow> response \<Rightarrow> 'a report_scheme \<Rightarrow> 'a report_scheme" where
  "fetchData_fulfilled f data st =
     (case data of
        NotAnObject \<Rightarrow>
          (showSnackbar ''No valid data returned from API.'' ''warning''
             (st\<lparr>columnTitles := Array [], rowsData := Array [], totalItems := Fin 0\<rparr>))
            \<lparr>showLoader := False\<rparr>
      | Object dataMapping rows tot \<Rightarrow>
          let totalPages = Math_ceil_div (ToNumber tot) (f_itemsPerPage f) in
          if js_ge (f_pageNumber f) totalPages \<and> js_gt totalPages (Fin 0)
          then st\<lparr>pageNumber := Fin 0, showLoader := False\<rparr>
          else if totalPages = Fin 0 \<and> f_pageNumber f \<noteq> Fin 0
          then st\<lparr>pageNumber := Fin 0, showLoader := False\<rparr>
          else
            let st1 = st\<lparr>columnTitles := or_empty dataMapping,
                         rowsData := or_empty rows,
                         totalItems := or_zero tot\<rparr>;
                st2 = (if length_is_zero rows \<and> js_gt (ToNumber tot) (Fin 0)
                       then showSnackbar ''No data for current page. Adjust filters or page.''
                              ''warning'' st1
                       else if tot = Some (Fin 0)
                       then showSnackbar ''No data found matching current filters.'' ''info'' st1
                       else st1)
            in st2\<lparr>showLoader := False\<rparr>)"

text \<open>
  The \<open>catch\<close> block.  \<open>error.message\<close> is read first, inside the template literal: of
  \<open>null\<close> and of \<open>undefined\<close> that throws, before any setter is called; a property that is
  missing reads as \<open>undefined\<close>.
\<close>

definition fetchData_catch ::
  "rejection \<Rightarrow> 'a report_scheme \<Rightarrow> js_exception + 'a report_scheme" where
  "fetchData_catch error st =
     (case error of
        NoValue \<Rightarrow> Inl TypeError
      | Raised message \<Rightarrow>
          Inr ((showSnackbar
                  (''Failed to fetch data: '' @
                     (case message of None \<Rightarrow> ''undefined'' | Some m \<Rightarrow> m))
                  ''error'' st)
                 \<lparr>columnTitles := Array [], rowsData := Array [], totalItems := Fin 0\<rparr>))"

text \<open>
  \<open>fetchData\<close> after the promise is rejected: the \<open>catch\<close> block, then \<open>finally\<close>, which
  runs also when the \<open>catch\<close> block throws.  That exception rejects the promise of
  \<open>fetchData()\<close>, which nothing awaits.
\<close>

definition fetchData_rejected :: "rejection \<Rightarrow> 'a report_scheme \<Rightarrow> 'a report_scheme" where
  "fetchData_rejected error st =
     (case fetchData_catch error st of
        Inl e \<Rightarrow> st\<lparr>showLoader := False\<rparr>
      | Inr st' \<Rightarrow> st'\<lparr>showLoader := False\<rparr>)"

definition fetchData_settled :: "fetch \<Rightarrow> outcome \<Rightarrow> 'a report_scheme \<Rightarrow> 'a report_scheme" where
  "fetchData_settled f out st =
     (case out of Fulfilled data \<Rightarrow> fetchData_fulfilled f data st
                | Rejected error \<Rightarrow> fetchData_rejected error st)"

text \<open>The initial values of the \<open>useState\<close> cells.\<close>

definition initial_report :: report where
  "initial_report =
     \<lparr>snackbarOpen = False, snackbarMessage = [], snackbarSeverity = ''info'',
      showLoader = True, pageNumber = Fin 0, itemsPerPage = Fin 20, columnTitles = Array [],
      rowsData = Array [], totalItems = Fin 0, appliedFilter = [], filterOpen = False,
      initialized = False\<rparr>"

section \<open>The Report component: the URL\<close>

definition cleanKey :: "string \<Rightarrow> string" where
  "cleanKey key = (if ends_with key ''[]'' then take (length key - 2) key else key)"

text \<open>\<open>v || d\<close> for the result of \<open>params.get\<close>: \<open>null\<close> and the empty string are falsy.\<close>

definition or_default :: "string option \<Rightarrow> string \<Rightarrow> string" where
  "or_default v d = (case v of None \<Rightarrow> d | Some s \<Rightarrow> if s = [] then d else s)"

text \<open>
  The loop of \<open>parseUrlParams\<close> over \<open>params.entries()\<close>.  \<open>filters[cleanKey]\<close> is an own
  property (an array), or inherited from \<open>Object.prototype\<close>, where the spread
  \<open>[...filters[cleanKey], value]\<close> throws, or \<open>undefined\<close>.
\<close>

fun accumulate_filters ::
  "string list \<Rightarrow> params \<Rightarrow> string list object \<Rightarrow> js_exception + string list object" where
  "accumulate_filters allowedFilterKeys [] filters = Inr filters"
| "accumulate_filters allowedFilterKeys ((key, v) # rest) filters =
     (if cleanKey key \<in> set allowedFilterKeys \<and> cleanKey key \<notin> set [''page'', ''limit'']
      then (case map_of filters (cleanKey key) of
              Some vs \<Rightarrow>
                accumulate_filters allowedFilterKeys rest (assign (cleanKey key) (vs @ [v]) filters)
            | None \<Rightarrow>
                if cleanKey key \<in> set Object_prototype_names then Inl TypeError
                else accumulate_filters allowedFilterKeys rest (assign (cleanKey key) [v] filters))
      else accumulate_filters allowedFilterKeys rest filters)"

record parsed =
  page :: jsnum
  limit :: jsnum
  filters :: "fragment list"

definition parseUrlParams :: "string list \<Rightarrow> string \<Rightarrow> js_exception + parsed" where
  "parseUrlParams allowedFilterKeys search =
     (let params = URLSearchParams search;
          page1 = Math_max (Fin 1) (parseInt (or_default (params_get params ''page'') ''1''));
          limit1 = Math_min
                     (Math_max (Fin 1) (parseInt (or_default (params_get params ''limit'') ''20'')))
                     (Fin 50)
      in case accumulate_filters allowedFilterKeys params [] of
           Inl e \<Rightarrow> Inl e
         | Inr filterObject \<Rightarrow>
             Inr \<lparr>page = js_sub page1 (Fin 1), limit = limit1,
                  filters = Object_entries filterObject\<rparr>)"

text \<open>
  Both serializers end with the same two nested \<open>forEach\<close> loops: one
  \<open>params.append(`${key}[]`, v)\<close> per value.
\<close>

definition append_values :: "fragment list \<Rightarrow> params \<Rightarrow> params" where
  "append_values fragments params =
     foldl (\<lambda>ps (key, values). foldl (\<lambda>ps v. params_append (key @ ''[]'') v ps) ps values)
       params fragments"

definition pagination_params :: "jsnum \<Rightarrow> jsnum \<Rightarrow> params" where
  "pagination_params pageNumber' itemsPerPage' =
     params_set ''limit'' (Number_toString itemsPerPage')
       (params_set ''page'' (Number_toString (js_add pageNumber' (Fin 1))) [])"

text \<open>The query string that the initialization effect builds from the parsed state.\<close>

definition initial_query :: "parsed \<Rightarrow> string" where
  "initial_query p =
     params_toString (append_values (filters p) (pagination_params (page p) (limit p)))"

text \<open>
  The consolidation of the URL-sync effect into \<open>filterValues\<close>, an object of \<open>Set\<close>s.
  For a key that \<open>Object.prototype\<close> defines and the object does not, \<open>!filterValues[key]\<close>
  is false and \<open>filterValues[key].add\<close> is not a function: the first value throws.
\<close>

fun consolidate ::
  "fragment list \<Rightarrow> string list object \<Rightarrow> js_exception + string list object" where
  "consolidate [] filterValues = Inr filterValues"
| "consolidate ((key, values) # rest) filterValues =
     (case map_of filterValues key of
        Some s \<Rightarrow>
          consolidate rest (replace_value key (foldl (\<lambda>s v. Set_add v s) s values) filterValues)
      | None \<Rightarrow>
          if key \<in> set Object_prototype_names
          then (if values = [] then consolidate rest filterValues else Inl TypeError)
          else consolidate rest (assign key (new_Set values) filterValues))"

text \<open>The query string that the URL-sync effect builds from the state.\<close>

definition sync_query :: "jsnum \<Rightarrow> jsnum \<Rightarrow> fragment list \<Rightarrow> js_exception + string" where
  "sync_query pageNumber' itemsPerPage' appliedFilter' =
     (case consolidate appliedFilter' [] of
        Inl e \<Rightarrow> Inl e
      | Inr filterValues \<Rightarrow>
          Inr (params_toString
                 (append_values (Object_entries filterValues)
                    (pagination_params pageNumber' itemsPerPage'))))"

section \<open>The filter drawer\<close>

definition getFilterName :: "string \<Rightarrow> string" where
  "getFilterName filterKey =
     (if filterKey = ''studentClass'' then ''class''
      else if filterKey = ''gender'' then ''gender''
      else if filterKey = ''house'' then ''house''
      else filterKey)"

definition getMockFilterOptions :: "string \<Rightarrow> string list" where
  "getMockFilterOptions filterName =
     (if filterName = ''class'' then [''5'', ''6'', ''7'', ''8'', ''9'', ''10'']
      else if filterName = ''gender'' then [''Male'', ''Female'']
      else if filterName = ''house'' then [''Red'', ''Green'', ''Blue'', ''Yellow'']
      else [])"

text \<open>
  \<open>filterKeyToValidOptionsMap.get(key)\<close>: a \<open>Map\<close> with one \<open>Set\<close> of options per allowed
  key; a \<open>Set\<close> is truthy even when empty.
\<close>

definition validOptions :: "string list \<Rightarrow> string \<Rightarrow> string list option" where
  "validOptions allowedFilterKeys key =
     (if key \<in> set allowedFilterKeys then Some (getMockFilterOptions (getFilterName key)) else None)"

text \<open>
  \<open>initialTemp\<close>, as the \<open>useState\<close> initializer of \<open>tempFilters\<close> and \<open>handleClose\<close> both
  build it from \<open>appliedFilter\<close>.
\<close>

definition initialTemp :: "string list \<Rightarrow> fragment list \<Rightarrow> string list object" where
  "initialTemp allowedFilterKeys appliedFilter' =
     foldl (\<lambda>temp (key, values).
              case validOptions allowedFilterKeys key of
                Some opts \<Rightarrow> assign key (filter (\<lambda>v. v \<in> set opts) values) temp
              | None \<Rightarrow> temp)
       [] appliedFilter'"

text \<open>
  The page: the state of \<open>Report\<close>, the \<open>tempFilters\<close> cell of the drawer, and the fetches
  that were started and have not settled.
\<close>

record view = report +
  tempFilters :: "string list object"
  pending :: "fetch list"

definition handleFilterChange :: "string \<Rightarrow> string list \<Rightarrow> view \<Rightarrow> view" where
  "handleFilterChange filterKey newSelectedValues st =
     st\<lparr>tempFilters := define_property filterKey newSelectedValues (tempFilters st)\<rparr>"

definition applyFilters :: "view \<Rightarrow> view" where
  "applyFilters st =
     st\<lparr>appliedFilter := filter (\<lambda>(key, values). values \<noteq> []) (Object_entries (tempFilters st)),
        filterOpen := False\<rparr>"

definition resetFilters :: "string list \<Rightarrow> view \<Rightarrow> view" where
  "resetFilters allowedFilterKeys st =
     st\<lparr>tempFilters := foldl (\<lambda>resetTemp key. assign key [] resetTemp) [] allowedFilterKeys,
        appliedFilter := [],
        filterOpen := False\<rparr>"

definition handleClose :: "string list \<Rightarrow> view \<Rightarrow> view" where
  "handleClose allowedFilterKeys st =
     st\<lparr>tempFilters := initialTemp allowedFilterKeys (appliedFilter st), filterOpen := False\<rparr>"

text \<open>Opening the drawer mounts \<open>FilterComponent\<close>, which runs the initializer.\<close>

definition openFilter :: "string list \<Rightarrow> view \<Rightarrow> view" where
  "openFilter allowedFilterKeys st =
     st\<lparr>filterOpen := True, tempFilters := initialTemp allowedFilterKeys (appliedFilter st)\<rparr>"

section \<open>The table\<close>

text \<open>
  What \<open>DynamicTable\<close> renders above the pagination controls: the placeholder
  \<open>No data available for the selected filters.\<close>, or the titles of the columns and, for
  each row, its field for every column.
\<close>

datatype rendering = Placeholder | Table "string list" "string list list"

definition cell :: "row \<Rightarrow> string \<Rightarrow> string" where
  "cell r key = (case map_of r key of None \<Rightarrow> [] | Some v \<Rightarrow> v)"

text \<open>
  The render reads \<open>rowsData.length\<close>, which throws for \<open>undefined\<close> and \<open>null\<close>, and when
  that is greater than zero it calls \<open>columnTitles.map\<close> and \<open>rowsData.map\<close>, which are
  functions for arrays only.
\<close>

definition DynamicTable :: "column field \<Rightarrow> row field \<Rightarrow> js_exception + rendering" where
  "DynamicTable columnTitles' rowsData' =
     (case rowsData' of
        Nullish \<Rightarrow> Inl TypeError
      | Falsy \<Rightarrow> Inr Placeholder
      | Truthy \<Rightarrow> Inr Placeholder
      | Text s \<Rightarrow> if s = [] then Inr Placeholder else Inl TypeError
      | Array rows \<Rightarrow>
          if rows = [] then Inr Placeholder
          else (case columnTitles' of
                  Array cols \<Rightarrow>
                    Inr (Table (map snd cols)
                           (map (\<lambda>r. map (\<lambda>col. cell r (fst col)) cols) rows))
                | _ \<Rightarrow> Inl TypeError))"

text \<open>The page sizes that the \<open>TablePagination\<close> offers.\<close>

definition rowsPerPageOptions :: "string list" where
  "rowsPerPageOptions = [''5'', ''10'', ''20'', ''50'']"

definition handleChangePage :: "jsnum \<Rightarrow> view \<Rightarrow> view" where
  "handleChangePage newPage st = st\<lparr>pageNumber := newPage\<rparr>"

definition handleChangeRowsPerPage :: "string \<Rightarrow> view \<Rightarrow> view" where
  "handleChangeRowsPerPage v st = st\<lparr>itemsPerPage := parseInt v, pageNumber := Fin 0\<rparr>"

section \<open>Events and effects\<close>

text \<open>
  The data-fetching effect up to its \<open>await\<close>: the loader is shown and a fetch is started
  that closes over the current page, page size and filters.
\<close>

definition fetchData_start :: "view \<Rightarrow> view" where
  "fetchData_start st =
     st\<lparr>showLoader := True,
        pending := pending st @
          [\<lparr>f_pageNumber = pageNumber st, f_itemsPerPage = itemsPerPage st,
            f_appliedFilter = appliedFilter st\<rparr>]\<rparr>"

datatype event =
  OpenFilter
| FilterChange string "string list"
| ApplyFilters
| ResetFilters
| CloseFilter
| ChangePage jsnum
| ChangeRowsPerPage string
| CloseSnackbar
| Settle nat outcome

text \<open>
  The callback an event runs.  A \<open>Select\<close> exists for the allowed keys only, so a change
  for another key has no handler.  \<open>Settle i out\<close> settles the \<open>i\<close>-th pending fetch.
  Whether the control that raises the event is on the screen is the matter of \<open>enabled\<close>
  below.
\<close>

definition remove_nth :: "nat \<Rightarrow> 'a list \<Rightarrow> 'a list" where
  "remove_nth i xs = take i xs @ drop (Suc i) xs"

definition handle :: "string list \<Rightarrow> event \<Rightarrow> view \<Rightarrow> view" where
  "handle allowedFilterKeys e st =
     (case e of
        OpenFilter \<Rightarrow> openFilter allowedFilterKeys st
      | FilterChange filterKey vs \<Rightarrow>
          if filterKey \<in> set allowedFilterKeys then handleFilterChange filterKey vs st else st
      | ApplyFilters \<Rightarrow> applyFilters st
      | ResetFilters \<Rightarrow> resetFilters allowedFilterKeys st
      | CloseFilter \<Rightarrow> handleClose allowedFilterKeys st
      | ChangePage newPage \<Rightarrow> handleChangePage newPage st
      | ChangeRowsPerPage v \<Rightarrow> handleChangeRowsPerPage v st
      | CloseSnackbar \<Rightarrow> closeSnackbar st
      | Settle i out \<Rightarrow>
          if i < length (pending st)
          then fetchData_settled (pending st ! i) out (st\<lparr>pending := remove_nth i (pending st)\<rparr>)
          else st)"

text \<open>
  After the callback the effects with dependencies
  \<open>[pageNumber, itemsPerPage, appliedFilter, initialized]\<close> run again when one of them
  changed: the numbers by value, \<open>appliedFilter\<close> whenever a new array was stored, which
  \<open>applyFilters\<close> and \<open>resetFilters\<close> always do.
\<close>

definition stores_appliedFilter :: "event \<Rightarrow> bool" where
  "stores_appliedFilter e = (e = ApplyFilters \<or> e = ResetFilters)"

definition step :: "string list \<Rightarrow> event \<Rightarrow> view \<Rightarrow> view" where
  "step allowedFilterKeys e st =
     (let st' = handle allowedFilterKeys e st in
      if initialized st' \<and>
         (pageNumber st' \<noteq> pageNumber st \<or> itemsPerPage st' \<noteq> itemsPerPage st \<or>
          stores_appliedFilter e)
      then fetchData_start st' else st')"

definition run :: "string list \<Rightarrow> event list \<Rightarrow> view \<Rightarrow> view" where
  "run allowedFilterKeys es st = foldl (\<lambda>st e. step allowedFilterKeys e st) st es"

text \<open>
  Mounting the component on a URL: the initialization effect stores the parsed state and
  sets \<open>initialized\<close>, after which the data-fetching effect starts the first fetch.
\<close>

definition initial_view :: view where
  "initial_view = report.extend initial_report \<lparr>tempFilters = [], pending = []\<rparr>"

definition mount :: "string list \<Rightarrow> string \<Rightarrow> js_exception + view" where
  "mount allowedFilterKeys search =
     (case parseUrlParams allowedFilterKeys search of
        Inl e \<Rightarrow> Inl e
      | Inr p \<Rightarrow>
          Inr (fetchData_start
                 (initial_view\<lparr>pageNumber := page p, itemsPerPage := limit p,
                    appliedFilter := filters p, initialized := True\<rparr>)))"

section \<open>The events that can arrive\<close>

text \<open>
  \<open>Report\<close> renders the table when the loader is off, the drawer when \<open>filterOpen\<close> is
  set, and the button that opens the drawer when the drawer is closed and the loader is
  off.  No error boundary is around the table: when its render throws, the whole tree is
  unmounted, and the setters of an unmounted component do nothing.
\<close>

definition crashed :: "view \<Rightarrow> bool" where
  "crashed st = (\<not> showLoader st \<and> isl (DynamicTable (columnTitles st) (rowsData st)))"

text \<open>
  An event can arrive when the control that raises it is rendered.  A \<open>Select\<close> of the
  drawer reports a list of options of its key, the \<open>TablePagination\<close> one of its page
  sizes; the page it reports is not constrained here.  A fetch settles while it is
  pending.
\<close>

definition enabled :: "string list \<Rightarrow> event \<Rightarrow> view \<Rightarrow> bool" where
  "enabled allowedFilterKeys e st =
     (\<not> crashed st \<and>
      (case e of
         OpenFilter \<Rightarrow> \<not> filterOpen st \<and> \<not> showLoader st
       | FilterChange filterKey vs \<Rightarrow>
           filterOpen st \<and> filterKey \<in> set allowedFilterKeys \<and>
           list_all (\<lambda>v. v \<in> set (getMockFilterOptions (getFilterName filterKey))) vs
       | ApplyFilters \<Rightarrow> filterOpen st
       | ResetFilters \<Rightarrow> filterOpen st
       | CloseFilter \<Rightarrow> filterOpen st
       | ChangePage newPage \<Rightarrow> \<not> showLoader st
       | ChangeRowsPerPage v \<Rightarrow> \<not> showLoader st \<and> v \<in> set rowsPerPageOptions
       | CloseSnackbar \<Rightarrow> snackbarOpen st
       | Settle i out \<Rightarrow> i < length (pending st)))"

text \<open>Every event of the sequence can arrive in the state that the events before it lead to.\<close>

fun feasible :: "string list \<Rightarrow> event list \<Rightarrow> view \<Rightarrow> bool" where
  "feasible allowedFilterKeys [] st = True"
| "feasible allowedFilterKeys (e # es) st =
     (enabled allowedFilterKeys e st \<and>
      feasible allowedFilterKeys es (step allowedFilterKeys e st))"

section \<open>The page that embeds the report, and predicates of the statements\<close>

text \<open>\<open>SchoolDataPage\<close> passes these keys as \<open>allowedFilterKeys\<close>.\<close>

definition SchoolDataPage_allowedFilterKeys :: "string list" where
  "SchoolDataPage_allowedFilterKeys = [''studentClass'', ''gender'', ''house'']"

text \<open>
  From \<open>mockApi.js\<close>: the column mapping that \<open>mockGetReport\<close> returns, and the first
  two of its records as the table shows them.
\<close>

definition mock_dataMapping :: "column list" where
  "mock_dataMapping =
     [(''id'', ''ID''), (''name'', ''Name''), (''class'', ''Class''), (''gender'', ''Gender''),
      (''house'', ''House'')]"

definition Alice :: row where
  "Alice =
     [(''id'', ''1''), (''name'', ''Alice Smith''), (''class'', ''8''), (''gender'', ''Female''),
      (''house'', ''Red'')]"

definition Bob :: row where
  "Bob =
     [(''id'', ''2''), (''name'', ''Bob Johnson''), (''class'', ''9''), (''gender'', ''Male''),
      (''house'', ''Green'')]"

text \<open>
  A session in which two fetches overlap.  The first response is displayed, the drawer is
  opened, and the page size is changed in the table behind it, which starts a fetch for
  all records; in the drawer \<open>gender = [Male]\<close> is selected and applied, which starts a
  fetch for the male records while the former is pending.  The responses are those of
  \<open>mockGetReport\<close> for its 26 records, 13 of them male, with the rows cut to the first
  ones.
\<close>

definition all_records :: response where
  "all_records = Object (Array mock_dataMapping) (Array [Alice, Bob]) (Some (Fin 26))"





text \<open>The last part of the \<open>try\<close> block of \<open>fetchData\<close>, where the response is displayed.\<close>

definition commit :: "column field \<Rightarrow> row field \<Rightarrow> jsnum option \<Rightarrow>
    'a report_scheme \<Rightarrow> 'a report_scheme" where
  "commit dm rows tot st =
     (let st1 = st\<lparr>columnTitles := or_empty dm, rowsData := or_empty rows,
                   totalItems := or_zero tot\<rparr>;
          st2 = (if length_is_zero rows \<and> js_gt (ToNumber tot) (Fin 0)
                 then showSnackbar ''No data for current page. Adjust filters or page.''
                        ''warning'' st1
                 else if tot = Some (Fin 0)
                 then showSnackbar ''No data found matching current filters.'' ''info'' st1
                 else st1)
      in st2\<lparr>showLoader := False\<rparr>)"

text \<open>Every key is allowed and every value is one of the options of its key.\<close>

definition valid_temp :: "string list \<Rightarrow> string list object \<Rightarrow> bool" where
  "valid_temp allowed temp =
     (\<forall>(k, vs) \<in> set temp.
        k \<in> set allowed \<and> set vs \<subseteq> set (getMockFilterOptions (getFilterName k)))"

text \<open>
  The order of own properties: an array index stands before every key that is not one,
  and before every greater array index.
\<close>

definition key_before :: "string \<Rightarrow> string \<Rightarrow> bool" where
  "key_before a b =
     (if is_array_index b then is_array_index a \<and> digits_value a < digits_value b else True)"

definition own_order :: "string list \<Rightarrow> bool" where
  "own_order ks = (distinct ks \<and> sorted_wrt key_before ks)"

text \<open>The pairs that the two \<open>forEach\<close> loops of a serializer append for a list of fragments.\<close>

definition filter_entries :: "fragment list \<Rightarrow> params" where
  "filter_entries fragments =
     concat (map (\<lambda>(key, values). map (\<lambda>v. (key @ ''[]'', v)) values) fragments)"

text \<open>
  What \<open>parseUrlParams\<close> establishes for its filters: own-property order, keys that are
  allowed, not reserved and not inherited, and at least one value per key.
\<close>

definition filters_ok :: "string list \<Rightarrow> fragment list \<Rightarrow> bool" where
  "filters_ok allowed fragments =
     (own_order (map fst fragments) \<and>
      (\<forall>(k, vs) \<in> set fragments.
         k \<in> set allowed \<and> k \<notin> set [''page'', ''limit''] \<and> k \<notin> set Object_prototype_names \<and>
         vs \<noteq> []))"

text \<open>
  What holds in every state that can be reached: the applied fragments stand in the order
  of own properties, under keys that objects do not inherit, and the staged filters stand
  in that order and are valid.
\<close>

definition well_formed :: "string list \<Rightarrow> view \<Rightarrow> bool" where
  "well_formed allowed st =
     (own_order (map fst (appliedFilter st)) \<and>
      list_all (\<lambda>k. k \<notin> set Object_prototype_names) (map fst (appliedFilter st)) \<and>
      own_order (map fst (tempFilters st)) \<and>
      valid_temp allowed (tempFilters st))"

text \<open>
  The page sizes that are reached: a number from 1 to 50 or \<open>NaN\<close>, for the state and for
  every fetch that is pending.
\<close>

definition page_size_reached :: "jsnum \<Rightarrow> bool" where
  "page_size_reached n = (case n of NaN \<Rightarrow> True | Fin k \<Rightarrow> 1 \<le> k \<and> k \<le> 50 | _ \<Rightarrow> False)"

definition page_sizes_reached :: "view \<Rightarrow> bool" where
  "page_sizes_reached st =
     (page_size_reached (itemsPerPage st) \<and>
      list_all (\<lambda>f. page_size_reached (f_itemsPerPage f)) (pending st))"

text \<open>The keys of the applied and of the staged filters are allowed keys.\<close>

definition keys_allowed :: "string list \<Rightarrow> view \<Rightarrow> bool" where
  "keys_allowed allowed st =
     (fst ` set (appliedFilter st) \<subseteq> set allowed \<and> fst ` set (tempFilters st) \<subseteq> set allowed)"

section \<open>Verified properties\<close>

subsection \<open>The number of pages\<close>



















subsection \<open>The data-fetching effect\<close>



lemma fetchData_rejected_frame:
  "appliedFilter (fetchData_rejected error st) = appliedFilter st"
  "itemsPerPage (fetchData_rejected error st) = itemsPerPage st"
  "pageNumber (fetchData_rejected error st) = pageNumber st"
  "initialized (fetchData_rejected error st) = initialized st"
  "filterOpen (fetchData_rejected error st) = filterOpen st"
  by (simp_all add: fetchData_rejected_def fetchData_catch_def showSnackbar_def
      split: rejection.splits)

lemma fetchData_rejected_view_frame:
  "tempFilters (fetchData_rejected error st) = tempFilters st"
  "pending (fetchData_rejected error st) = pending st"
  by (simp_all add: fetchData_rejected_def fetchData_catch_def showSnackbar_def
      split: rejection.splits)

lemma fetchData_settled_frame:
  "appliedFilter (fetchData_settled f out st) = appliedFilter st"
  "itemsPerPage (fetchData_settled f out st) = itemsPerPage st"
  "initialized (fetchData_settled f out st) = initialized st"
  "filterOpen (fetchData_settled f out st) = filterOpen st"
  by (simp_all add: fetchData_settled_def fetchData_fulfilled_def fetchData_rejected_frame
      showSnackbar_def Let_def split: outcome.splits response.splits)

lemma fetchData_settled_view_frame:
  "tempFilters (fetchData_settled f out st) = tempFilters st"
  "pending (fetchData_settled f out st) = pending st"
  by (simp_all add: fetchData_settled_def fetchData_fulfilled_def fetchData_rejected_view_frame
      showSnackbar_def Let_def split: outcome.splits response.splits)

lemma step_display:
  "columnTitles (step allowed e st) = columnTitles (handle allowed e st)"
  "rowsData (step allowed e st) = rowsData (handle allowed e st)"
  "totalItems (step allowed e st) = totalItems (handle allowed e st)"
  "appliedFilter (step allowed e st) = appliedFilter (handle allowed e st)"
  "tempFilters (step allowed e st) = tempFilters (handle allowed e st)"
  "pageNumber (step allowed e st) = pageNumber (handle allowed e st)"
  "itemsPerPage (step allowed e st) = itemsPerPage (handle allowed e st)"
  "initialized (step allowed e st) = initialized (handle allowed e st)"
  by (simp_all add: step_def fetchData_start_def Let_def)

lemma handle_appliedFilter:
  "\<not> stores_appliedFilter e \<Longrightarrow> appliedFilter (handle allowed e st) = appliedFilter st"
  by (cases e)
     (simp_all add: handle_def stores_appliedFilter_def openFilter_def handleFilterChange_def
       handleClose_def handleChangePage_def handleChangeRowsPerPage_def closeSnackbar_def
       fetchData_settled_frame)


lemma step_Settle_Rejected:
  "i < length (pending st) \<Longrightarrow>
   step allowed (Settle i (Rejected error)) st =
     fetchData_rejected error (st\<lparr>pending := remove_nth i (pending st)\<rparr>)"
  by (simp add: step_def handle_def fetchData_settled_def fetchData_rejected_frame
      stores_appliedFilter_def Let_def)




text \<open>
  After \<open>?limit=abc\<close> the page size is \<open>NaN\<close>, which the statement above leaves out.
  Then \<open>totalPages\<close> is \<open>NaN\<close> and no test of the correction holds: a response without
  records is displayed and the page index 3 is kept.
\<close>

lemma page_size_NaN:
  "(case mount SchoolDataPage_allowedFilterKeys ''?page=4&limit=abc'' of
      Inl e \<Rightarrow> False
    | Inr st0 \<Rightarrow>
        pending st0 = [\<lparr>f_pageNumber = Fin 3, f_itemsPerPage = NaN, f_appliedFilter = []\<rparr>]
        \<and> pageNumber (step SchoolDataPage_allowedFilterKeys
            (Settle 0 (Fulfilled (Object (Array mock_dataMapping) (Array []) (Some (Fin 0)))))
            st0) = Fin 3
        \<and> columnTitles (step SchoolDataPage_allowedFilterKeys
            (Settle 0 (Fulfilled (Object (Array mock_dataMapping) (Array []) (Some (Fin 0)))))
            st0) = Array mock_dataMapping
        \<and> pending (step SchoolDataPage_allowedFilterKeys
            (Settle 0 (Fulfilled (Object (Array mock_dataMapping) (Array []) (Some (Fin 0)))))
            st0) = [])"
  by code_simp




text \<open>
  A rejection whose reason is neither \<open>null\<close> nor \<open>undefined\<close> empties columns and rows,
  sets the total to zero and shows the notice \<open>Failed to fetch data: \<close> followed by the
  \<open>message\<close> of the reason, with severity \<open>error\<close>.  Page, page size and filters are
  untouched, so that no fetch is started.
\<close>

lemma rejected_with_reason:
  assumes "i < length (pending st)"
  shows "(let st' = step allowedFilterKeys (Settle i (Rejected (Raised (Some message)))) st in
          columnTitles st' = Array [] \<and> rowsData st' = Array [] \<and> totalItems st' = Fin 0 \<and>
          snackbarOpen st' \<and> snackbarSeverity st' = ''error'' \<and>
          snackbarMessage st' = ''Failed to fetch data: '' @ message \<and>
          showLoader st' = False \<and>
          pageNumber st' = pageNumber st \<and> itemsPerPage st' = itemsPerPage st \<and>
          appliedFilter st' = appliedFilter st \<and>
          pending st' = remove_nth i (pending st))"
  using assms
  by (simp add: step_Settle_Rejected fetchData_rejected_def fetchData_catch_def showSnackbar_def
      Let_def)

text \<open>
  Claim C7 fails in the code for a rejection whose reason is \<open>null\<close> or \<open>undefined\<close>.
  Reading \<open>error.message\<close> throws inside the \<open>catch\<close> block before a setter is called:
  columns, rows and total stay as they were displayed and no notice is shown.  Only the
  loader is hidden, by the \<open>finally\<close> block.
\<close>

theorem C7_rejection_without_reason:
  assumes "enabled allowedFilterKeys (Settle i (Rejected NoValue)) st"
  shows "step allowedFilterKeys (Settle i (Rejected NoValue)) st =
           st\<lparr>pending := remove_nth i (pending st), showLoader := False\<rparr>"
proof -
  have "i < length (pending st)" using assms by (simp add: enabled_def)
  then show ?thesis
    by (simp add: step_Settle_Rejected fetchData_rejected_def fetchData_catch_def)
qed

text \<open>
  All records are displayed and a fetch is pending.  It is rejected with \<open>null\<close>: the
  records and the total stay on the screen and no notice is shown.
\<close>

theorem C7_rejection_without_reason_witness:
  "rowsData (step SchoolDataPage_allowedFilterKeys (Settle 0 (Rejected NoValue))
      (initial_view\<lparr>columnTitles := Array mock_dataMapping, rowsData := Array [Alice, Bob],
         totalItems := Fin 26,
         pending := [\<lparr>f_pageNumber = Fin 1, f_itemsPerPage = Fin 20, f_appliedFilter = []\<rparr>]\<rparr>))
     = Array [Alice, Bob]
   \<and> totalItems (step SchoolDataPage_allowedFilterKeys (Settle 0 (Rejected NoValue))
      (initial_view\<lparr>columnTitles := Array mock_dataMapping, rowsData := Array [Alice, Bob],
         totalItems := Fin 26,
         pending := [\<lparr>f_pageNumber = Fin 1, f_itemsPerPage = Fin 20, f_appliedFilter = []\<rparr>]\<rparr>))
     = Fin 26
   \<and> snackbarOpen (step SchoolDataPage_allowedFilterKeys (Settle 0 (Rejected NoValue))
      (initial_view\<lparr>columnTitles := Array mock_dataMapping, rowsData := Array [Alice, Bob],
         totalItems := Fin 26,
         pending := [\<lparr>f_pageNumber = Fin 1, f_itemsPerPage = Fin 20, f_appliedFilter = []\<rparr>]\<rparr>))
     = False"
proof -
  have en: "enabled SchoolDataPage_allowedFilterKeys (Settle 0 (Rejected NoValue))
      (initial_view\<lparr>columnTitles := Array mock_dataMapping, rowsData := Array [Alice, Bob],
         totalItems := Fin 26,
         pending := [\<lparr>f_pageNumber = Fin 1, f_itemsPerPage = Fin 20, f_appliedFilter = []\<rparr>]\<rparr>)"
    by code_simp
  show ?thesis
    unfolding C7_rejection_without_reason[OF en]
    by (simp add: initial_view_def initial_report_def report.defs)
qed

lemma fulfilled_without_total:
  "fetchData_fulfilled f (Object dm rows None) st = commit dm rows None st"
  by (cases "f_itemsPerPage f")
     (simp_all add: fetchData_fulfilled_def commit_def ToNumber_def js_ge_def js_gt_def Let_def)






text \<open>
  Two cases that the statement above leaves out.  The empty object \<open>{}\<close> is displayed as
  no columns, no rows and total 0 without any notice, where the code means to give
  feedback when data is empty.  The object \<open>{schoolInfo: "abc", total: 1}\<close> is displayed
  as it is, and the render of the table throws.
\<close>

lemma object_shape_slips:
  "fetchData_fulfilled f (Object Nullish Nullish None) st =
     st\<lparr>columnTitles := Array [], rowsData := Array [], totalItems := Fin 0, showLoader := False\<rparr>
   \<and> rowsData (fetchData_fulfilled
        \<lparr>f_pageNumber = Fin 0, f_itemsPerPage = Fin 20, f_appliedFilter = []\<rparr>
        (Object Nullish (Text ''abc'') (Some (Fin 1))) initial_view) = Text ''abc''
   \<and> DynamicTable (Array []) (Text ''abc'') = Inl TypeError
   \<and> crashed (fetchData_fulfilled
        \<lparr>f_pageNumber = Fin 0, f_itemsPerPage = Fin 20, f_appliedFilter = []\<rparr>
        (Object Nullish (Text ''abc'') (Some (Fin 1))) initial_view)"
proof -
  have t1: "Math_ceil_div (Fin 1) (Fin 20) = Fin 1" by code_simp
  have a: "fetchData_fulfilled f (Object Nullish Nullish None) st =
     st\<lparr>columnTitles := Array [], rowsData := Array [], totalItems := Fin 0, showLoader := False\<rparr>"
    by (simp add: fulfilled_without_total commit_def ToNumber_def or_zero_def or_empty_def
        js_gt_def length_is_zero_def Let_def)
  have c: "fetchData_fulfilled \<lparr>f_pageNumber = Fin 0, f_itemsPerPage = Fin 20, f_appliedFilter = []\<rparr>
        (Object Nullish (Text ''abc'') (Some (Fin 1))) initial_view =
      initial_view\<lparr>columnTitles := Array [], rowsData := Text ''abc'', totalItems := Fin 1,
        showLoader := False\<rparr>"
    by (simp add: fetchData_fulfilled_def ToNumber_def or_zero_def or_empty_def js_ge_def
        js_gt_def length_is_zero_def truthy_num_def Let_def t1 del: Math_ceil_div.simps)
  have d: "DynamicTable (Array []) (Text ''abc'') = Inl TypeError"
    by (simp add: DynamicTable_def)
  show ?thesis
    unfolding a c by (simp add: d crashed_def)
qed

subsection \<open>Objects\<close>

lemma map_of_replace_value:
  "map_of obj k \<noteq> None \<Longrightarrow> map_of (replace_value k v obj) = (map_of obj)(k \<mapsto> v)"
  by (induction obj) (auto simp: fun_eq_iff)

lemma map_of_insert_index:
  "map_of obj k = None \<Longrightarrow> map_of (insert_index k v obj) = (map_of obj)(k \<mapsto> v)"
  by (induction obj) (auto simp: fun_eq_iff split: if_splits)

lemma map_of_define_property: "map_of (define_property k v obj) = (map_of obj)(k \<mapsto> v)"
  by (auto simp: define_property_def map_of_replace_value map_of_insert_index fun_eq_iff
      map_add_def split: option.splits)

lemma set_replace_value: "set (replace_value k v obj) \<subseteq> insert (k, v) (set obj)"
  by (induction obj) (auto split: if_splits)

lemma set_insert_index: "set (insert_index k v obj) = insert (k, v) (set obj)"
  by (induction obj) (auto split: if_splits)

lemma set_define_property: "set (define_property k v obj) \<subseteq> insert (k, v) (set obj)"
  using set_replace_value[of k v obj]
  by (auto simp: define_property_def set_insert_index)

lemma set_assign: "set (assign k v obj) \<subseteq> insert (k, v) (set obj)"
  using set_define_property[of k v obj] by (auto simp: assign_def)

subsection \<open>The filter drawer\<close>

lemma valid_temp_assign:
  assumes "valid_temp allowed temp" and "k \<in> set allowed"
    and "set vs \<subseteq> set (getMockFilterOptions (getFilterName k))"
  shows "valid_temp allowed (assign k vs temp)"
  unfolding valid_temp_def
proof (intro ballI)
  fix entry
  assume "entry \<in> set (assign k vs temp)"
  then have "entry = (k, vs) \<or> entry \<in> set temp"
    using set_assign[of k vs temp] by auto
  then show "case entry of (k, vs) \<Rightarrow>
      k \<in> set allowed \<and> set vs \<subseteq> set (getMockFilterOptions (getFilterName k))"
    using assms by (auto simp: valid_temp_def)
qed

lemma initialTemp_fold_valid:
  "valid_temp allowed temp \<Longrightarrow>
   valid_temp allowed
     (foldl (\<lambda>temp (key, values).
              case validOptions allowed key of
                Some opts \<Rightarrow> assign key (filter (\<lambda>v. v \<in> set opts) values) temp
              | None \<Rightarrow> temp) temp applied)"
proof (induction applied arbitrary: temp)
  case Nil
  then show ?case by simp
next
  case (Cons fragment applied)
  obtain key vs where fragment: "fragment = (key, vs)" by (cases fragment)
  have "valid_temp allowed
          (case validOptions allowed key of
             Some opts \<Rightarrow> assign key (filter (\<lambda>v. v \<in> set opts) vs) temp
           | None \<Rightarrow> temp)"
  proof (cases "key \<in> set allowed")
    case True
    then show ?thesis
      using Cons.prems by (auto simp: validOptions_def intro!: valid_temp_assign)
  next
    case False
    with Cons.prems show ?thesis by (simp add: validOptions_def)
  qed
  then show ?case using Cons.IH by (simp add: fragment)
qed

lemma valid_initialTemp: "valid_temp allowed (initialTemp allowed applied)"
  unfolding initialTemp_def by (rule initialTemp_fold_valid) (simp add: valid_temp_def)

text \<open>
  Claim C5, as the code has it.  The values are checked against the options of their key
  where the drawer derives \<open>tempFilters\<close> from \<open>appliedFilter\<close>, when it opens and when it
  is closed without applying: there every key is an allowed key and every value is an
  option of its key, the others being dropped without any error.  \<open>appliedFilter\<close>
  itself, as parsed from the URL, is not checked against the options.
\<close>

theorem C5_temp_filters_valid:
  "(\<forall>(key, values) \<in> set (tempFilters (openFilter allowedFilterKeys st)).
      key \<in> set allowedFilterKeys \<and> set values \<subseteq> set (getMockFilterOptions (getFilterName key)))
   \<and> (\<forall>(key, values) \<in> set (tempFilters (handleClose allowedFilterKeys st)).
      key \<in> set allowedFilterKeys \<and> set values \<subseteq> set (getMockFilterOptions (getFilterName key)))"
  using valid_initialTemp[of allowedFilterKeys "appliedFilter st"]
  by (simp add: openFilter_def handleClose_def valid_temp_def)

text \<open>
  With \<open>gender = [Alien, Male]\<close> applied, the drawer opens on \<open>gender = [Male]\<close>, and
  \<open>Male\<close> is an option of \<open>gender\<close>.
\<close>

theorem C5_temp_filters_valid_witness:
  "tempFilters (openFilter SchoolDataPage_allowedFilterKeys
      (initial_view\<lparr>appliedFilter := [(''gender'', [''Alien'', ''Male''])]\<rparr>))
     = [(''gender'', [''Male''])]
   \<and> set [''Male''] \<subseteq> set (getMockFilterOptions (getFilterName ''gender''))"
proof -
  have t: "tempFilters (openFilter SchoolDataPage_allowedFilterKeys
      (initial_view\<lparr>appliedFilter := [(''gender'', [''Alien'', ''Male''])]\<rparr>))
     = [(''gender'', [''Male''])]"
    by code_simp
  show ?thesis
    using C5_temp_filters_valid[of SchoolDataPage_allowedFilterKeys
      "initial_view\<lparr>appliedFilter := [(''gender'', [''Alien'', ''Male''])]\<rparr>"]
    by (simp add: t)
qed

text \<open>
  The claim as the specification states it fails: the query \<open>?gender[]=Alien\<close> puts the
  value \<open>Alien\<close> into \<open>appliedFilter\<close>, and \<open>Alien\<close> is no option of \<open>gender\<close>.
\<close>

theorem C5_counterexample:
  "(case mount SchoolDataPage_allowedFilterKeys ''?gender[]=Alien'' of
      Inl e \<Rightarrow> False
    | Inr st \<Rightarrow> appliedFilter st = [(''gender'', [''Alien''])])
   \<and> ''Alien'' \<notin> set (getMockFilterOptions (getFilterName ''gender''))"
  by code_simp

text \<open>
  Claim C9.  A change of one filter in the drawer replaces the values of that key in
  \<open>tempFilters\<close> and leaves the other keys, \<open>appliedFilter\<close>, the page and the page size as
  they are, and starts no fetch.  Closing the drawer without applying sets \<open>tempFilters\<close>
  to what the current \<open>appliedFilter\<close> gives and leaves \<open>appliedFilter\<close> as it is.  Of all
  events only applying and resetting change \<open>appliedFilter\<close>.
\<close>

theorem C9_filter_commit_isolation:
  "appliedFilter (step allowedFilterKeys (FilterChange filterKey vs) st) = appliedFilter st
   \<and> pageNumber (step allowedFilterKeys (FilterChange filterKey vs) st) = pageNumber st
   \<and> itemsPerPage (step allowedFilterKeys (FilterChange filterKey vs) st) = itemsPerPage st
   \<and> pending (step allowedFilterKeys (FilterChange filterKey vs) st) = pending st
   \<and> (filterKey \<in> set allowedFilterKeys \<longrightarrow>
        map_of (tempFilters (step allowedFilterKeys (FilterChange filterKey vs) st)) =
          (map_of (tempFilters st))(filterKey \<mapsto> vs))
   \<and> appliedFilter (step allowedFilterKeys CloseFilter st) = appliedFilter st
   \<and> pending (step allowedFilterKeys CloseFilter st) = pending st
   \<and> tempFilters (step allowedFilterKeys CloseFilter st) = initialTemp allowedFilterKeys (appliedFilter st)
   \<and> (appliedFilter (step allowedFilterKeys e st) \<noteq> appliedFilter st \<longrightarrow>
        e = ApplyFilters \<or> e = ResetFilters)"
proof -
  have "appliedFilter (step allowedFilterKeys e st) \<noteq> appliedFilter st \<longrightarrow>
        e = ApplyFilters \<or> e = ResetFilters"
    using handle_appliedFilter[of e allowedFilterKeys st]
    by (auto simp: step_display stores_appliedFilter_def)
  moreover have "step allowedFilterKeys (FilterChange filterKey vs) st =
      handle allowedFilterKeys (FilterChange filterKey vs) st"
    by (simp add: step_def handle_def Let_def stores_appliedFilter_def handleFilterChange_def)
  moreover have "step allowedFilterKeys CloseFilter st = handleClose allowedFilterKeys st"
    by (simp add: step_def handle_def Let_def stores_appliedFilter_def handleClose_def)
  ultimately show ?thesis
    by (simp add: handle_def handleFilterChange_def handleClose_def map_of_define_property)
qed

text \<open>
  With \<open>house = [Red]\<close> applied and the drawer open, selecting \<open>gender = [Male]\<close> changes
  \<open>tempFilters\<close> only, and closing the drawer discards the selection.
\<close>

theorem C9_filter_commit_isolation_witness:
  "appliedFilter (step SchoolDataPage_allowedFilterKeys (FilterChange ''gender'' [''Male''])
      (initial_view\<lparr>appliedFilter := [(''house'', [''Red''])], filterOpen := True,
         initialized := True, tempFilters := [(''house'', [''Red''])]\<rparr>))
     = [(''house'', [''Red''])]
   \<and> map_of (tempFilters (step SchoolDataPage_allowedFilterKeys (FilterChange ''gender'' [''Male''])
      (initial_view\<lparr>appliedFilter := [(''house'', [''Red''])], filterOpen := True,
         initialized := True, tempFilters := [(''house'', [''Red''])]\<rparr>))) ''gender''
     = Some [''Male'']
   \<and> tempFilters (step SchoolDataPage_allowedFilterKeys CloseFilter
      (step SchoolDataPage_allowedFilterKeys (FilterChange ''gender'' [''Male''])
        (initial_view\<lparr>appliedFilter := [(''house'', [''Red''])], filterOpen := True,
           initialized := True, tempFilters := [(''house'', [''Red''])]\<rparr>)))
     = [(''house'', [''Red''])]"
proof -
  let ?st = "initial_view\<lparr>appliedFilter := [(''house'', [''Red''])], filterOpen := True,
         initialized := True, tempFilters := [(''house'', [''Red''])]\<rparr>"
  let ?st1 = "step SchoolDataPage_allowedFilterKeys (FilterChange ''gender'' [''Male'']) ?st"
  have i: "initialTemp SchoolDataPage_allowedFilterKeys [(''house'', [''Red''])]
           = [(''house'', [''Red''])]"
    by code_simp
  have k: "''gender'' \<in> set SchoolDataPage_allowedFilterKeys"
    by (simp add: SchoolDataPage_allowedFilterKeys_def)
  show ?thesis
    using C9_filter_commit_isolation
            [of SchoolDataPage_allowedFilterKeys "''gender''" "[''Male'']" ?st ApplyFilters]
          C9_filter_commit_isolation
            [of SchoolDataPage_allowedFilterKeys "''gender''" "[''Male'']" ?st1 ApplyFilters]
          k
    by (simp add: i)
qed

subsection \<open>Percent-encoding and \<open>URLSearchParams\<close>\<close>

lemma hex_digit_code:
  "n < 16 \<Longrightarrow> (of_char (hex_digit n) :: nat) = (if n < 10 then 48 + n else 55 + n)"
  by (simp add: hex_digit_def)

lemma hex_value_hex_digit: "n < 16 \<Longrightarrow> hex_value (hex_digit n) = Some n"
  by (simp add: hex_value_def hex_digit_code Let_def)

lemma hex_digit_plain:
  "n < 16 \<Longrightarrow> hex_digit n \<noteq> CHR ''+'' \<and> hex_digit n \<noteq> CHR ''&'' \<and> hex_digit n \<noteq> CHR ''=''
     \<and> hex_digit n \<noteq> CHR ''?''"
proof -
  assume n: "n < 16"
  have "(of_char (hex_digit n) :: nat) \<noteq> 43 \<and> (of_char (hex_digit n) :: nat) \<noteq> 38 \<and>
        (of_char (hex_digit n) :: nat) \<noteq> 61 \<and> (of_char (hex_digit n) :: nat) \<noteq> 63"
    using n by (simp add: hex_digit_code)
  then show ?thesis by auto
qed

lemma unreserved_plain:
  "unreserved c \<Longrightarrow> c \<noteq> CHR ''+'' \<and> c \<noteq> CHR ''&'' \<and> c \<noteq> CHR ''='' \<and> c \<noteq> CHR ''?'' \<and>
     c \<noteq> CHR ''%''"
  by (auto simp: unreserved_def Let_def)

lemma percent_decode_Cons: "c \<noteq> CHR ''%'' \<Longrightarrow> percent_decode (c # xs) = c # percent_decode xs"
proof (cases xs)
  case Nil
  then show ?thesis by simp
next
  case (Cons h t)
  assume "c \<noteq> CHR ''%''"
  then show ?thesis using Cons by (cases t) simp_all
qed

lemma percent_decode_escape:
  "a < 16 \<Longrightarrow> b < 16 \<Longrightarrow>
   percent_decode (CHR ''%'' # hex_digit a # hex_digit b # rest) = char_of (16 * a + b) # percent_decode rest"
  by (simp add: hex_value_hex_digit)

lemma plus_to_space_append: "plus_to_space (xs @ ys) = plus_to_space xs @ plus_to_space ys"
  by (simp add: plus_to_space_def)

lemma char_of_div_mod: "char_of (16 * ((of_char c :: nat) div 16) + of_char c mod 16) = c"
  by simp

lemma of_char_div_16: "(of_char c :: nat) div 16 < 16"
proof -
  have "(of_char c :: nat) < 256" by (rule nat_of_char_less_256)
  then have "(of_char c :: nat) < 16 * 16" by simp
  then show ?thesis by (rule less_mult_imp_div_less)
qed

lemma decode_encode_byte:
  "percent_decode (plus_to_space (encode_byte c @ rest)) = c # percent_decode (plus_to_space rest)"
proof (cases "c = CHR '' ''")
  case True
  then show ?thesis
    by (simp add: encode_byte_def plus_to_space_def percent_decode_Cons)
next
  case False
  show ?thesis
  proof (cases "unreserved c")
    case True
    then show ?thesis
      using False unreserved_plain[of c]
      by (simp add: encode_byte_def plus_to_space_def percent_decode_Cons)
  next
    case u: False
    have p: "plus_to_space (encode_byte c @ rest) =
             CHR ''%'' # hex_digit (of_char c div 16) # hex_digit (of_char c mod 16) # plus_to_space rest"
      using False u hex_digit_plain[OF of_char_div_16[of c]]
        hex_digit_plain[of "of_char c mod 16"]
      by (simp add: encode_byte_def plus_to_space_def)
    show ?thesis
      unfolding p
      using percent_decode_escape[OF of_char_div_16[of c], of "of_char c mod 16"]
      by simp
  qed
qed

lemma urldecode_urlencode: "urldecode (urlencode s) = s"
  unfolding urldecode_def urlencode_def
proof (induction s)
  case Nil
  then show ?case by (simp add: plus_to_space_def)
next
  case (Cons c s)
  then show ?case by (simp add: decode_encode_byte)
qed

lemma encode_byte_plain:
  "x \<in> set (encode_byte c) \<Longrightarrow> x \<noteq> CHR ''&'' \<and> x \<noteq> CHR ''='' \<and> x \<noteq> CHR ''?''"
  using unreserved_plain[of c] hex_digit_plain[OF of_char_div_16[of c]]
    hex_digit_plain[of "of_char c mod 16"]
  by (auto simp: encode_byte_def split: if_splits)

lemma urlencode_plain:
  "x \<in> set (urlencode s) \<Longrightarrow> x \<noteq> CHR ''&'' \<and> x \<noteq> CHR ''='' \<and> x \<noteq> CHR ''?''"
  using encode_byte_plain by (auto simp: urlencode_def)

lemma split_on_not_Nil: "split_on d xs \<noteq> []"
  by (induction xs) (auto split: list.splits)

lemma split_on_plain: "d \<notin> set x \<Longrightarrow> split_on d x = [x]"
  by (induction x) auto

lemma split_on_append: "d \<notin> set x \<Longrightarrow> split_on d (x @ d # rest) = x # split_on d rest"
  by (induction x) auto

lemma split_on_join:
  "xs \<noteq> [] \<Longrightarrow> \<forall>x \<in> set xs. d \<notin> set x \<Longrightarrow> split_on d (join_with d xs) = xs"
proof (induction d xs rule: join_with.induct)
  case (1 d)
  then show ?case by simp
next
  case (2 d x)
  then show ?case by (simp add: split_on_plain)
next
  case (3 d x y ys)
  then show ?case by (simp add: split_on_append)
qed

lemma set_join_with: "set (join_with d xs) \<subseteq> insert d (\<Union> (set ` set xs))"
  by (induction d xs rule: join_with.induct) auto

lemma params_toString_pair_text: "params_toString ps = join_with CHR ''&'' (map pair_text ps)"
  by (simp add: params_toString_def)

lemma pair_text_plain: "x \<in> set (pair_text nv) \<Longrightarrow> x \<noteq> CHR ''&'' \<and> x \<noteq> CHR ''?''"
  using urlencode_plain[of x "fst nv"] urlencode_plain[of x "snd nv"]
  by (auto simp: pair_text_def)

lemma parse_pair_pair_text: "parse_pair (pair_text nv) = nv"
proof -
  have n: "\<forall>x \<in> set (urlencode (fst nv)). x \<noteq> CHR ''=''"
    using urlencode_plain by blast
  have t: "takeWhile (\<lambda>c. c \<noteq> CHR ''='') (pair_text nv) = urlencode (fst nv)"
    unfolding pair_text_def using n by (simp add: takeWhile_tail)
  have d: "dropWhile (\<lambda>c. c \<noteq> CHR ''='') (pair_text nv) = CHR ''='' # urlencode (snd nv)"
    unfolding pair_text_def using n by (simp add: dropWhile_append3)
  show ?thesis
    by (simp add: parse_pair_def t d urldecode_urlencode)
qed

lemma urlencoded_parse_toString: "urlencoded_parse (params_toString ps) = ps"
proof (cases ps)
  case Nil
  then show ?thesis by (simp add: urlencoded_parse_def params_toString_def)
next
  case (Cons p ps')
  have "\<forall>x \<in> set (map pair_text ps). CHR ''&'' \<notin> set x"
    using pair_text_plain by auto
  then have s: "split_on CHR ''&'' (params_toString ps) = map pair_text ps"
    unfolding params_toString_pair_text using Cons by (intro split_on_join) simp_all
  have f: "filter (\<lambda>bytes. bytes \<noteq> []) (map pair_text ps) = map pair_text ps"
    by (simp add: filter_id_conv pair_text_def)
  show ?thesis
    by (simp add: urlencoded_parse_def s f o_def parse_pair_pair_text)
qed

lemma params_toString_plain: "CHR ''?'' \<notin> set (params_toString ps)"
proof
  assume a: "CHR ''?'' \<in> set (params_toString ps)"
  have "set (params_toString ps) \<subseteq> insert CHR ''&'' (\<Union> (set ` set (map pair_text ps)))"
    unfolding params_toString_pair_text by (rule set_join_with)
  with a have "CHR ''?'' \<in> insert CHR ''&'' (\<Union> (set ` set (map pair_text ps)))"
    by (rule subsetD[rotated])
  then obtain nv where "CHR ''?'' \<in> set (pair_text nv)" by auto
  then show False using pair_text_plain[of "CHR ''?''" nv] by simp
qed

lemma URLSearchParams_toString: "URLSearchParams (params_toString ps) = ps"
proof -
  have "\<not> starts_with (params_toString ps) ''?''"
  proof
    assume "starts_with (params_toString ps) ''?''"
    then have "take 1 (params_toString ps) = ''?''" by (simp add: starts_with_def)
    then have "CHR ''?'' \<in> set (take 1 (params_toString ps))" by simp
    then have "CHR ''?'' \<in> set (params_toString ps)"
      by (rule in_set_takeD)
    then show False using params_toString_plain by blast
  qed
  then show ?thesis by (simp add: URLSearchParams_def urlencoded_parse_toString)
qed

lemma URLSearchParams_query: "URLSearchParams (CHR ''?'' # params_toString ps) = ps"
  by (simp add: URLSearchParams_def starts_with_def urlencoded_parse_toString)

subsection \<open>Decimal numerals\<close>

lemma digit_char_props:
  assumes "0 \<le> d" and "d < 10"
  shows "is_digit (digit_char d)" and "digit_value (digit_char d) = d"
proof -
  have "(48 + nat d) mod 256 = 48 + nat d" using assms by simp
  then have c: "(of_char (digit_char d) :: nat) = 48 + nat d"
    by (simp add: digit_char_def)
  show "is_digit (digit_char d)" using assms by (simp add: is_digit_def c)
  show "digit_value (digit_char d) = d" using assms by (simp add: digit_value_def c)
qed

lemma digits_value_snoc: "digits_value (xs @ [c]) = 10 * digits_value xs + digit_value c"
  by (simp add: digits_value_def)

lemma decimal_digits: "0 \<le> n \<Longrightarrow> list_all is_digit (decimal n) \<and> decimal n \<noteq> []"
proof (induction n rule: decimal.induct)
  case (1 m)
  show ?case
  proof (cases "m < 10")
    case True
    then show ?thesis using 1(2) by (subst decimal.simps, subst (2) decimal.simps) (simp add: digit_char_props)
  next
    case False
    then have "list_all is_digit (decimal (m div 10))" using 1 by simp
    moreover have "is_digit (digit_char (m mod 10))" by (simp add: digit_char_props)
    ultimately show ?thesis using False
      by (subst decimal.simps, subst (2) decimal.simps) simp
  qed
qed

lemma digits_value_decimal: "0 \<le> n \<Longrightarrow> digits_value (decimal n) = n"
proof (induction n rule: decimal.induct)
  case (1 m)
  show ?case
  proof (cases "m < 10")
    case True
    then show ?thesis using 1(2)
      by (subst decimal.simps) (simp add: digits_value_def digit_char_props)
  next
    case False
    then have "digits_value (decimal (m div 10)) = m div 10" using 1 by simp
    then show ?thesis using False
      by (subst decimal.simps) (simp add: digits_value_snoc digit_char_props)
  qed
qed

lemma digit_not_white_space:
  assumes "is_digit c"
  shows "white_space_length (c # s) = 0"
proof -
  have "\<forall>w \<in> set white_space. \<not> starts_with (c # s) w"
    using assms by (auto simp: white_space_def starts_with_def is_digit_def)
  then have "find (starts_with (c # s)) white_space = None"
    by (simp add: find_None_iff)
  then show ?thesis by (simp add: white_space_length_def)
qed

lemma trimStart_digit: "is_digit c \<Longrightarrow> trimStart (c # s) = c # s"
  by (subst trimStart.simps) (simp add: digit_not_white_space)

lemma is_digit_not_sign: "is_digit c \<Longrightarrow> c \<noteq> CHR ''-'' \<and> c \<noteq> CHR ''+''"
  by (auto simp: is_digit_def)

lemma parseInt_digits:
  assumes "list_all is_digit z" and "z \<noteq> []"
  shows "parseInt z = round_to_double (digits_value z)"
proof -
  obtain c s where z: "z = c # s" using assms(2) by (cases z) auto
  then have c: "is_digit c" using assms(1) by simp
  have t: "trimStart z = z" using c z by (simp add: trimStart_digit)
  have tw: "takeWhile is_digit z = z" using assms(1) by (simp add: list_all_iff)
  show ?thesis
    unfolding parseInt_def t Let_def
    using is_digit_not_sign[OF c] assms(2) tw
    by (simp add: z starts_with_def)
qed

lemma parseInt_decimal: "0 \<le> n \<Longrightarrow> parseInt (decimal n) = round_to_double n"
  using decimal_digits[of n] by (simp add: parseInt_digits digits_value_decimal)

lemma round_to_double_small: "\<bar>n\<bar> \<le> 2 ^ 53 \<Longrightarrow> round_to_double n = Fin n"
  by (simp add: round_to_double_def)

lemma Number_toString_small: "0 \<le> n \<Longrightarrow> n \<le> 2 ^ 53 \<Longrightarrow> Number_toString (Fin n) = decimal n"
  by (simp add: magnitude_toString_def)

lemma parseInt_toString_small:
  assumes "0 \<le> n" and "n \<le> 2 ^ 53"
  shows "parseInt (Number_toString (Fin n)) = Fin n"
proof -
  have "parseInt (Number_toString (Fin n)) = round_to_double n"
    by (simp only: Number_toString_small[OF assms] parseInt_decimal[OF assms(1)])
  also have "\<dots> = Fin n" using assms by (simp add: round_to_double_small)
  finally show ?thesis .
qed

lemma parseInt_NaN: "parseInt (Number_toString NaN) = NaN"
  by code_simp

lemma Number_toString_not_Nil: "0 \<le> n \<Longrightarrow> n \<le> 2 ^ 53 \<Longrightarrow> Number_toString (Fin n) \<noteq> []"
  using decimal_digits[of n] Number_toString_small[of n] by (simp del: Number_toString.simps)

subsection \<open>The limit\<close>

lemma accumulate_filters_total:
  assumes "set allowed \<inter> set Object_prototype_names = {}"
  shows "\<exists>obj. accumulate_filters allowed ps acc = Inr obj"
proof (induction ps arbitrary: acc)
  case Nil
  then show ?case by simp
next
  case (Cons entry ps)
  obtain key v where entry: "entry = (key, v)" by (cases entry)
  show ?case
  proof (cases "cleanKey key \<in> set allowed")
    case True
    then have "cleanKey key \<notin> set Object_prototype_names" using assms by blast
    then show ?thesis using Cons.IH
      by (simp add: entry split: option.splits)
  next
    case False
    then show ?thesis using Cons.IH by (simp add: entry)
  qed
qed

lemma parseUrlParams_limit:
  "parseUrlParams allowed search = Inr p \<Longrightarrow>
   limit p = Math_min (Math_max (Fin 1)
               (parseInt (or_default (params_get (URLSearchParams search) ''limit'') ''20''))) (Fin 50)"
  by (auto simp: parseUrlParams_def Let_def split: sum.splits)

lemma parseUrlParams_page:
  "parseUrlParams allowed search = Inr p \<Longrightarrow>
   page p = js_sub (Math_max (Fin 1)
               (parseInt (or_default (params_get (URLSearchParams search) ''page'') ''1''))) (Fin 1)"
  by (auto simp: parseUrlParams_def Let_def split: sum.splits)

lemma parseUrlParams_filters:
  "parseUrlParams allowed search = Inr p \<Longrightarrow>
   accumulate_filters allowed (URLSearchParams search) [] = Inr (filters p)"
  by (auto simp: parseUrlParams_def Let_def Object_entries_def split: sum.splits)

lemma parseInt_20: "parseInt ''20'' = Fin 20"
  by code_simp

lemma parseInt_1: "parseInt ''1'' = Fin 1"
  by code_simp

lemma clamp_limit:
  "Math_min (Math_max (Fin 1) (Fin n)) (Fin 50) = Fin (if n < 1 then 1 else if 50 < n then 50 else n)"
  "Math_min (Math_max (Fin 1) PosInf) (Fin 50) = Fin 50"
  "Math_min (Math_max (Fin 1) NegInf) (Fin 50) = Fin 1"
  "Math_min (Math_max (Fin 1) NaN) (Fin 50) = NaN"
  by (simp_all add: Math_min_def Math_max_def)

text \<open>
  Claim C3, as the code has it.  The limit is \<open>min(max(1, parseInt(limit || "20")), 50)\<close>:
  an absent or empty \<open>limit\<close> gives the default 20; a \<open>limit\<close> that \<open>parseInt\<close> reads as
  a number \<open>n\<close> gives \<open>n\<close> clamped into \<open>[1, 50]\<close>, so 0 and the negative numbers give 1
  (not the default) and the numbers above 50 give 50.  What a \<open>limit\<close> without a leading
  number gives is left open here.  The function returns whenever no allowed key is a name
  that objects inherit.
\<close>

theorem C3_limit_clamped:
  "(\<forall>p. parseUrlParams allowedFilterKeys search = Inr p \<longrightarrow>
      (case params_get (URLSearchParams search) ''limit'' of
         None \<Rightarrow> limit p = Fin 20
       | Some s \<Rightarrow>
           if s = [] then limit p = Fin 20
           else (case parseInt s of
                   Fin n \<Rightarrow> limit p = Fin (if n < 1 then 1 else if 50 < n then 50 else n)
                 | PosInf \<Rightarrow> limit p = Fin 50
                 | NegInf \<Rightarrow> limit p = Fin 1
                 | NaN \<Rightarrow> True)))
   \<and> (set allowedFilterKeys \<inter> set Object_prototype_names = {} \<longrightarrow>
        (\<exists>p. parseUrlParams allowedFilterKeys search = Inr p))"
proof (intro conjI allI impI)
  fix p
  assume "parseUrlParams allowedFilterKeys search = Inr p"
  then have l: "limit p = Math_min (Math_max (Fin 1)
               (parseInt (or_default (params_get (URLSearchParams search) ''limit'') ''20''))) (Fin 50)"
    by (rule parseUrlParams_limit)
  show "case params_get (URLSearchParams search) ''limit'' of
         None \<Rightarrow> limit p = Fin 20
       | Some s \<Rightarrow>
           if s = [] then limit p = Fin 20
           else (case parseInt s of
                   Fin n \<Rightarrow> limit p = Fin (if n < 1 then 1 else if 50 < n then 50 else n)
                 | PosInf \<Rightarrow> limit p = Fin 50
                 | NegInf \<Rightarrow> limit p = Fin 1
                 | NaN \<Rightarrow> True)"
    unfolding l
    by (simp add: or_default_def parseInt_20 clamp_limit split: option.splits jsnum.splits)
next
  assume "set allowedFilterKeys \<inter> set Object_prototype_names = {}"
  then obtain obj where "accumulate_filters allowedFilterKeys (URLSearchParams search) [] = Inr obj"
    using accumulate_filters_total by blast
  then show "\<exists>p. parseUrlParams allowedFilterKeys search = Inr p"
    by (simp add: parseUrlParams_def Let_def)
qed

text \<open>For the keys of \<open>SchoolDataPage\<close> and \<open>?limit=1000\<close> the limit is 50.\<close>

theorem C3_limit_clamped_witness:
  "(case parseUrlParams SchoolDataPage_allowedFilterKeys ''?limit=1000'' of
      Inl e \<Rightarrow> False | Inr p \<Rightarrow> limit p = Fin 50)"
proof -
  have d: "set SchoolDataPage_allowedFilterKeys \<inter> set Object_prototype_names = {}"
    by (simp add: SchoolDataPage_allowedFilterKeys_def Object_prototype_names_def)
  have g: "params_get (URLSearchParams ''?limit=1000'') ''limit'' = Some ''1000''"
    by code_simp
  have i: "parseInt ''1000'' = Fin 1000"
    by code_simp
  note c = C3_limit_clamped[of SchoolDataPage_allowedFilterKeys "''?limit=1000''"]
  from c d obtain p where p: "parseUrlParams SchoolDataPage_allowedFilterKeys ''?limit=1000'' = Inr p"
    by blast
  with c have "limit p = Fin 50" by (simp add: g i)
  with p show ?thesis by simp
qed

lemma limit_examples:
  "(case parseUrlParams SchoolDataPage_allowedFilterKeys ''?limit=51'' of
      Inl e \<Rightarrow> False | Inr p \<Rightarrow> limit p = Fin 50)
   \<and> (case parseUrlParams SchoolDataPage_allowedFilterKeys ''?limit=7'' of
      Inl e \<Rightarrow> False | Inr p \<Rightarrow> limit p = Fin 7)
   \<and> (case parseUrlParams SchoolDataPage_allowedFilterKeys ''?page=3'' of
      Inl e \<Rightarrow> False | Inr p \<Rightarrow> limit p = Fin 20)"
  by code_simp

text \<open>
  The claim as the specification states it fails: \<open>limit=0\<close> and \<open>limit=-5\<close> give 1, not
  the default 20, and \<open>limit=abc\<close> gives \<open>NaN\<close>, which is not in \<open>[1, 50]\<close>.
\<close>

theorem C3_counterexample:
  "(case parseUrlParams SchoolDataPage_allowedFilterKeys ''?limit=0'' of
      Inl e \<Rightarrow> False | Inr p \<Rightarrow> limit p = Fin 1)
   \<and> (case parseUrlParams SchoolDataPage_allowedFilterKeys ''?limit=-5'' of
      Inl e \<Rightarrow> False | Inr p \<Rightarrow> limit p = Fin 1)
   \<and> (case parseUrlParams SchoolDataPage_allowedFilterKeys ''?limit=abc'' of
      Inl e \<Rightarrow> False | Inr p \<Rightarrow> limit p = NaN)"
  by code_simp

subsection \<open>The order of own properties\<close>

lemma array_index_inj:
  "is_array_index a \<Longrightarrow> is_array_index b \<Longrightarrow> digits_value a = digits_value b \<Longrightarrow> a = b"
  by (metis is_array_index_def)

lemma map_fst_replace_value: "map fst (replace_value k v obj) = map fst obj"
  by (induction obj) auto

lemma set_fst_insert_index: "fst ` set (insert_index k v obj) = insert k (fst ` set obj)"
  by (simp add: set_insert_index)

lemma key_before_trans: "key_before a b \<Longrightarrow> key_before b c \<Longrightarrow> key_before a c"
  by (auto simp: key_before_def split: if_splits)

lemma sorted_insert_index:
  assumes "sorted_wrt key_before (map fst obj)" and "is_array_index k" and "k \<notin> fst ` set obj"
  shows "sorted_wrt key_before (map fst (insert_index k v obj))"
  using assms
proof (induction obj)
  case Nil
  then show ?case by simp
next
  case (Cons entry obj)
  obtain k' v' where entry: "entry = (k', v')" by (cases entry)
  have rest: "sorted_wrt key_before (map fst obj)" and
       first: "\<forall>y \<in> fst ` set obj. key_before k' y"
    using Cons.prems(1) by (auto simp: entry)
  have ne: "k \<noteq> k'" and notin: "k \<notin> fst ` set obj" using Cons.prems(3) by (auto simp: entry)
  show ?case
  proof (cases "is_array_index k' \<and> digits_value k' < digits_value k")
    case True
    have "sorted_wrt key_before (map fst (insert_index k v obj))"
      using Cons.IH rest Cons.prems(2) notin by simp
    moreover have "key_before k' k" using True Cons.prems(2) by (simp add: key_before_def)
    ultimately show ?thesis using True first
      by (simp add: entry set_insert_index)
  next
    case False
    have kk': "key_before k k'"
    proof (cases "is_array_index k'")
      case True
      with False have "digits_value k \<le> digits_value k'" by simp
      moreover have "digits_value k \<noteq> digits_value k'"
        using array_index_inj[OF Cons.prems(2) True] ne by blast
      ultimately show ?thesis using True Cons.prems(2) by (simp add: key_before_def)
    next
      case False
      then show ?thesis by (simp add: key_before_def)
    qed
    have "\<forall>y \<in> fst ` set obj. key_before k y"
      using first kk' key_before_trans by blast
    moreover have "insert_index k v ((k', v') # obj) = (k, v) # (k', v') # obj"
      using False by (simp only: insert_index.simps if_False)
    ultimately show ?thesis using kk' first rest
      by (simp add: entry)
  qed
qed

lemma distinct_insert_index:
  "distinct (map fst obj) \<Longrightarrow> k \<notin> fst ` set obj \<Longrightarrow> distinct (map fst (insert_index k v obj))"
proof (induction obj)
  case Nil
  then show ?case by simp
next
  case (Cons entry obj)
  then show ?case
    by (cases entry) (auto simp: set_insert_index)
qed

lemma map_of_None_iff: "(map_of obj k = None) = (k \<notin> fst ` set obj)"
  by (simp add: map_of_eq_None_iff)

lemma own_order_define_property:
  assumes "own_order (map fst obj)"
  shows "own_order (map fst (define_property k v obj))"
proof (cases "map_of obj k = None")
  case False
  then show ?thesis using assms by (simp add: define_property_def map_fst_replace_value)
next
  case True
  then have notin: "k \<notin> fst ` set obj" by (simp add: map_of_None_iff)
  show ?thesis
  proof (cases "is_array_index k")
    case i: True
    then show ?thesis
      using assms True notin
      by (simp add: define_property_def own_order_def sorted_insert_index distinct_insert_index)
  next
    case i: False
    have "\<forall>y \<in> fst ` set obj. key_before y k" using i by (simp add: key_before_def)
    then show ?thesis
      using assms True notin i
      by (simp add: define_property_def own_order_def sorted_wrt_append)
  qed
qed

lemma own_order_assign: "own_order (map fst obj) \<Longrightarrow> own_order (map fst (assign k v obj))"
  by (simp add: assign_def own_order_define_property)

lemma insert_index_last:
  "\<forall>y \<in> fst ` set obj. is_array_index y \<and> digits_value y < digits_value k \<Longrightarrow>
   insert_index k v obj = obj @ [(k, v)]"
  by (induction obj) auto

lemma define_property_last:
  assumes "own_order (map fst obj @ [k])"
  shows "define_property k v obj = obj @ [(k, v)]"
proof -
  have notin: "k \<notin> fst ` set obj" and before: "\<forall>y \<in> fst ` set obj. key_before y k"
    using assms by (auto simp: own_order_def sorted_wrt_append)
  then have none: "map_of obj k = None" by (simp add: map_of_None_iff)
  show ?thesis
  proof (cases "is_array_index k")
    case True
    then have "\<forall>y \<in> fst ` set obj. is_array_index y \<and> digits_value y < digits_value k"
      using before by (simp add: key_before_def)
    then show ?thesis using none True by (simp add: define_property_def insert_index_last)
  next
    case False
    then show ?thesis using none by (simp add: define_property_def)
  qed
qed

lemma replace_value_last:
  "k \<notin> fst ` set obj \<Longrightarrow> replace_value k v' (obj @ [(k, v)]) = obj @ [(k, v')]"
  by (induction obj) auto

lemma map_of_last: "k \<notin> fst ` set obj \<Longrightarrow> map_of (obj @ [(k, v)]) k = Some v"
  by (induction obj) auto

lemma define_property_replace_last:
  "k \<notin> fst ` set obj \<Longrightarrow> define_property k v' (obj @ [(k, v)]) = obj @ [(k, v')]"
  by (simp add: define_property_def map_of_last replace_value_last)

subsection \<open>Parsing the filters and reading them back\<close>

lemma cleanKey_bracket: "cleanKey (k @ ''[]'') = k"
  by (simp add: cleanKey_def ends_with_def)

lemma cleanKey_page: "cleanKey ''page'' = ''page''" "cleanKey ''limit'' = ''limit''"
  by (simp_all add: cleanKey_def ends_with_def)

lemma proto_name: "''__proto__'' \<in> set Object_prototype_names"
  by (simp add: Object_prototype_names_def)

lemma filters_ok_assign:
  assumes "filters_ok allowed obj" and "k \<in> set allowed" and "k \<notin> set [''page'', ''limit'']"
    and "k \<notin> set Object_prototype_names" and "vs \<noteq> []"
  shows "filters_ok allowed (assign k vs obj)"
  unfolding filters_ok_def
proof (intro conjI ballI)
  show "own_order (map fst (assign k vs obj))"
    using assms(1) by (simp add: filters_ok_def own_order_assign)
next
  fix entry
  assume "entry \<in> set (assign k vs obj)"
  then have "entry = (k, vs) \<or> entry \<in> set obj"
    using set_assign[of k vs obj] by auto
  then show "case entry of (k, vs) \<Rightarrow>
       k \<in> set allowed \<and> k \<notin> set [''page'', ''limit''] \<and> k \<notin> set Object_prototype_names \<and>
       vs \<noteq> []"
    using assms by (auto simp: filters_ok_def)
qed

lemma filters_ok_own:
  "filters_ok allowed obj \<Longrightarrow> map_of obj k = Some vs \<Longrightarrow>
   k \<in> set allowed \<and> k \<notin> set [''page'', ''limit''] \<and> k \<notin> set Object_prototype_names"
  by (auto simp: filters_ok_def dest!: map_of_SomeD)

lemma accumulate_skip:
  "\<not> (cleanKey key \<in> set allowed \<and> cleanKey key \<notin> set [''page'', ''limit'']) \<Longrightarrow>
   accumulate_filters allowed ((key, v) # ps) acc = accumulate_filters allowed ps acc"
  by (simp only: accumulate_filters.simps if_False)

lemma accumulate_take:
  "cleanKey key \<in> set allowed \<and> cleanKey key \<notin> set [''page'', ''limit''] \<Longrightarrow>
   accumulate_filters allowed ((key, v) # ps) acc =
     (case map_of acc (cleanKey key) of
        Some vs \<Rightarrow> accumulate_filters allowed ps (assign (cleanKey key) (vs @ [v]) acc)
      | None \<Rightarrow>
          if cleanKey key \<in> set Object_prototype_names then Inl TypeError
          else accumulate_filters allowed ps (assign (cleanKey key) [v] acc))"
  by simp

lemma accumulate_filters_ok:
  "accumulate_filters allowed ps acc = Inr obj \<Longrightarrow> filters_ok allowed acc \<Longrightarrow>
   filters_ok allowed obj"
proof (induction ps arbitrary: acc)
  case Nil
  then show ?case by simp
next
  case (Cons entry ps)
  obtain key v where entry: "entry = (key, v)" by (cases entry)
  show ?case
  proof (cases "cleanKey key \<in> set allowed \<and> cleanKey key \<notin> set [''page'', ''limit'']")
    case False
    have "accumulate_filters allowed ps acc = Inr obj"
      using Cons.prems(1) unfolding entry accumulate_skip[OF False] .
    then show ?thesis using Cons.IH Cons.prems(2) by blast
  next
    case True
    show ?thesis
    proof (cases "map_of acc (cleanKey key)")
      case None
      then have np: "cleanKey key \<notin> set Object_prototype_names"
        and a: "accumulate_filters allowed ps (assign (cleanKey key) [v] acc) = Inr obj"
        using Cons.prems(1) unfolding entry accumulate_take[OF True]
        by (auto split: if_splits)
      have "filters_ok allowed (assign (cleanKey key) [v] acc)"
        using Cons.prems(2) True np by (intro filters_ok_assign) simp_all
      then show ?thesis using Cons.IH a by blast
    next
      case (Some vs)
      then have a: "accumulate_filters allowed ps (assign (cleanKey key) (vs @ [v]) acc) = Inr obj"
        using Cons.prems(1) unfolding entry accumulate_take[OF True] by simp
      have "filters_ok allowed (assign (cleanKey key) (vs @ [v]) acc)"
        using Cons.prems(2) True filters_ok_own[OF Cons.prems(2) Some]
        by (intro filters_ok_assign) simp_all
      then show ?thesis using Cons.IH a by blast
    qed
  qed
qed

lemma filters_ok_Nil: "filters_ok allowed []"
  by (simp add: filters_ok_def own_order_def)

lemma parseUrlParams_filters_ok:
  "parseUrlParams allowed search = Inr p \<Longrightarrow> filters_ok allowed (filters p)"
  using accumulate_filters_ok[OF parseUrlParams_filters filters_ok_Nil] by blast

lemma accumulate_values:
  assumes "k \<in> set allowed" and "k \<notin> set [''page'', ''limit'']" and "k \<notin> fst ` set pre"
    and "k \<notin> set Object_prototype_names"
  shows "accumulate_filters allowed (map (\<lambda>v. (k @ ''[]'', v)) vs @ tail) (pre @ [(k, xs)]) =
         accumulate_filters allowed tail (pre @ [(k, xs @ vs)])"
proof (induction vs arbitrary: xs)
  case Nil
  then show ?case by simp
next
  case (Cons v vs)
  have c: "cleanKey (k @ ''[]'') \<in> set allowed \<and> cleanKey (k @ ''[]'') \<notin> set [''page'', ''limit'']"
    using assms by (simp only: cleanKey_bracket) simp
  have "k \<noteq> ''__proto__''" using assms(4) proto_name by blast
  then have a: "assign k (xs @ [v]) (pre @ [(k, xs)]) = pre @ [(k, xs @ [v])]"
    using assms(3) by (simp add: assign_def define_property_replace_last)
  have "accumulate_filters allowed (map (\<lambda>v. (k @ ''[]'', v)) (v # vs) @ tail) (pre @ [(k, xs)]) =
        accumulate_filters allowed ((k @ ''[]'', v) # (map (\<lambda>v. (k @ ''[]'', v)) vs @ tail))
          (pre @ [(k, xs)])"
    by simp
  also have "\<dots> = accumulate_filters allowed (map (\<lambda>v. (k @ ''[]'', v)) vs @ tail)
                     (pre @ [(k, xs @ [v])])"
    by (simp only: accumulate_take[OF c] cleanKey_bracket map_of_last[OF assms(3)] option.case a)
  also have "\<dots> = accumulate_filters allowed tail (pre @ [(k, (xs @ [v]) @ vs)])"
    by (rule Cons.IH)
  finally show ?case by simp
qed

lemma filters_ok_prefix:
  "filters_ok allowed (pre @ (k, vs) # rest) \<Longrightarrow>
   own_order (map fst pre @ [k]) \<and> k \<in> set allowed \<and> k \<notin> set [''page'', ''limit''] \<and>
   k \<notin> set Object_prototype_names \<and> vs \<noteq> [] \<and> k \<notin> fst ` set pre"
  by (auto simp: filters_ok_def own_order_def sorted_wrt_append)

lemma accumulate_rebuild:
  "filters_ok allowed (pre @ fragments) \<Longrightarrow>
   accumulate_filters allowed (filter_entries fragments) pre = Inr (pre @ fragments)"
proof (induction fragments arbitrary: pre)
  case Nil
  then show ?case by (simp add: filter_entries_def)
next
  case (Cons fragment fragments)
  obtain k vs where fragment: "fragment = (k, vs)" by (cases fragment)
  note ok = filters_ok_prefix[OF Cons.prems[unfolded fragment]]
  then obtain v vs' where vs: "vs = v # vs'" by (cases vs) auto
  have notin: "k \<notin> fst ` set pre" using ok by simp
  then have none: "map_of pre k = None" by (simp add: map_of_None_iff)
  have "k \<noteq> ''__proto__''" using ok proto_name by blast
  then have first: "assign k [v] pre = pre @ [(k, [v])]"
    using ok by (simp add: assign_def define_property_last)
  have c: "cleanKey (k @ ''[]'') \<in> set allowed \<and> cleanKey (k @ ''[]'') \<notin> set [''page'', ''limit'']"
    using ok by (simp only: cleanKey_bracket) simp
  have np: "(k \<in> set Object_prototype_names) = False" using ok by simp
  have "filter_entries (fragment # fragments) =
        (k @ ''[]'', v) # (map (\<lambda>v. (k @ ''[]'', v)) vs' @ filter_entries fragments)"
    by (simp add: filter_entries_def fragment vs)
  then have "accumulate_filters allowed (filter_entries (fragment # fragments)) pre =
        accumulate_filters allowed
          (map (\<lambda>v. (k @ ''[]'', v)) vs' @ filter_entries fragments) (pre @ [(k, [v])])"
    by (simp only: accumulate_take[OF c] cleanKey_bracket none option.case np if_False first)
  also have "\<dots> = accumulate_filters allowed (filter_entries fragments) (pre @ [(k, [v] @ vs')])"
    using ok notin by (intro accumulate_values) simp_all
  also have "\<dots> = Inr ((pre @ [(k, vs)]) @ fragments)"
  proof -
    have "filters_ok allowed ((pre @ [(k, vs)]) @ fragments)"
      using Cons.prems by (simp add: fragment)
    then have "accumulate_filters allowed (filter_entries fragments) (pre @ [(k, vs)]) =
               Inr ((pre @ [(k, vs)]) @ fragments)"
      by (rule Cons.IH)
    then show ?thesis by (simp add: vs)
  qed
  finally show ?case by (simp add: fragment)
qed

lemma append_values_entries: "append_values fragments ps = ps @ filter_entries fragments"
proof (induction fragments arbitrary: ps)
  case Nil
  then show ?case by (simp add: append_values_def filter_entries_def)
next
  case (Cons fragment fragments)
  obtain k vs where fragment: "fragment = (k, vs)" by (cases fragment)
  have inner: "\<And>qs. foldl (\<lambda>ps v. params_append (k @ ''[]'') v ps) qs vs =
               qs @ map (\<lambda>v. (k @ ''[]'', v)) vs"
  proof -
    fix qs
    show "foldl (\<lambda>ps v. params_append (k @ ''[]'') v ps) qs vs = qs @ map (\<lambda>v. (k @ ''[]'', v)) vs"
      by (induction vs arbitrary: qs) (simp_all add: params_append_def)
  qed
  show ?case
    using Cons.IH[of "ps @ map (\<lambda>v. (k @ ''[]'', v)) vs"]
    by (simp add: append_values_def filter_entries_def fragment inner)
qed

lemma pagination_params_eq:
  "pagination_params pn ipp =
     [(''page'', Number_toString (js_add pn (Fin 1))), (''limit'', Number_toString ipp)]"
  by (simp add: pagination_params_def params_set_def)

lemma accumulate_serialized:
  "filters_ok allowed fragments \<Longrightarrow>
   accumulate_filters allowed (append_values fragments (pagination_params pn ipp)) [] =
     Inr fragments"
  using accumulate_rebuild[of allowed "[]" fragments]
  by (simp add: append_values_entries pagination_params_eq cleanKey_page)

subsection \<open>One pass of normalization\<close>

lemma round_to_double_nonneg: "0 \<le> i \<Longrightarrow> round_to_double i = Fin k \<Longrightarrow> 0 \<le> k"
  by (auto simp: round_to_double_def Let_def pos_imp_zdiv_nonneg_iff split: if_splits)

lemma Math_max_1_cases:
  "Math_max (Fin 1) x = NaN \<or> Math_max (Fin 1) x = PosInf \<or>
   (\<exists>m. Math_max (Fin 1) x = Fin m \<and> 1 \<le> m)"
  by (cases x) (auto simp: Math_max_def)

lemma page_range:
  assumes "parseUrlParams allowed search = Inr p" and "page p = Fin k"
  shows "0 \<le> k"
proof -
  let ?x = "parseInt (or_default (params_get (URLSearchParams search) ''page'') ''1'')"
  have pg: "page p = js_sub (Math_max (Fin 1) ?x) (Fin 1)"
    using assms(1) by (rule parseUrlParams_page)
  from Math_max_1_cases[of ?x] show ?thesis
  proof (elim disjE exE conjE)
    assume "Math_max (Fin 1) ?x = NaN"
    then show ?thesis using pg assms(2) by (simp add: js_sub_def)
  next
    assume "Math_max (Fin 1) ?x = PosInf"
    then show ?thesis using pg assms(2) by (simp add: js_sub_def)
  next
    fix m
    assume m: "Math_max (Fin 1) ?x = Fin m" "1 \<le> m"
    then have "round_to_double (m - 1) = Fin k" using pg assms(2) by (simp add: js_sub_def)
    then show ?thesis using m(2) round_to_double_nonneg[of "m - 1" k] by simp
  qed
qed

lemma limit_range:
  assumes "parseUrlParams allowed search = Inr p"
  shows "limit p = NaN \<or> (\<exists>l. limit p = Fin l \<and> 1 \<le> l \<and> l \<le> 50)"
proof -
  let ?x = "parseInt (or_default (params_get (URLSearchParams search) ''limit'') ''20'')"
  have "limit p = Math_min (Math_max (Fin 1) ?x) (Fin 50)"
    using assms by (rule parseUrlParams_limit)
  then show ?thesis
    by (cases ?x) (auto simp: Math_min_def Math_max_def)
qed

lemma reparse_number:
  assumes "0 \<le> n" and "n \<le> 2 ^ 53"
  shows "parseInt (or_default (Some (Number_toString (Fin n))) d) = Fin n"
  using Number_toString_not_Nil[OF assms] parseInt_toString_small[OF assms]
  by (simp add: or_default_def del: Number_toString.simps)

lemma reparse_NaN: "parseInt (or_default (Some (Number_toString NaN)) d) = NaN"
  by (simp add: or_default_def) code_simp

lemma reparse_page:
  assumes "x = NaN \<or> (\<exists>k. x = Fin k \<and> 0 \<le> k \<and> k < 2 ^ 53)"
  shows "js_sub (Math_max (Fin 1) (parseInt (or_default (Some (Number_toString (js_add x (Fin 1)))) d)))
           (Fin 1) = x"
  using assms
proof (elim disjE exE conjE)
  assume "x = NaN"
  then show ?thesis using reparse_NaN by (simp add: Math_max_def js_sub_def)
next
  fix k
  assume k: "x = Fin k" "0 \<le> k" "k < 2 ^ 53"
  then have a: "js_add x (Fin 1) = Fin (k + 1)" by (simp add: round_to_double_small)
  have "parseInt (or_default (Some (Number_toString (Fin (k + 1)))) d) = Fin (k + 1)"
    using k by (intro reparse_number) simp_all
  then show ?thesis
    unfolding a using k by (simp add: Math_max_def js_sub_def round_to_double_small)
qed

lemma reparse_limit:
  assumes "x = NaN \<or> (\<exists>l. x = Fin l \<and> 1 \<le> l \<and> l \<le> 50)"
  shows "Math_min (Math_max (Fin 1) (parseInt (or_default (Some (Number_toString x)) d))) (Fin 50) = x"
  using assms
proof (elim disjE exE conjE)
  assume "x = NaN"
  then show ?thesis using reparse_NaN by (simp add: Math_max_def Math_min_def)
next
  fix l
  assume l: "x = Fin l" "1 \<le> l" "l \<le> 50"
  have "parseInt (or_default (Some (Number_toString (Fin l))) d) = Fin l"
    using l by (intro reparse_number) simp_all
  then show ?thesis
    unfolding l(1) using l by (simp add: Math_max_def Math_min_def)
qed

lemma get_serialized:
  "params_get (append_values fragments (pagination_params pn ipp)) ''page'' =
     Some (Number_toString (js_add pn (Fin 1)))"
  "params_get (append_values fragments (pagination_params pn ipp)) ''limit'' =
     Some (Number_toString ipp)"
  by (simp_all add: params_get_def append_values_entries pagination_params_eq)

text \<open>
  Claim C1, as the code has it.  When decoding a query string returns a state whose page
  is below \<open>2^53\<close> (or \<open>NaN\<close>), encoding that state as the initialization effect does and
  decoding the result returns the same state.  From \<open>2^53\<close> on the page is a double that
  \<open>page - 1\<close> and \<open>page + 1\<close> round, and the second decoding can differ.
\<close>

theorem C1_normalization_idempotent:
  assumes "parseUrlParams allowedFilterKeys search = Inr p"
    and "page p = NaN \<or> (\<exists>k. page p = Fin k \<and> k < 2 ^ 53)"
  shows "parseUrlParams allowedFilterKeys (CHR ''?'' # initial_query p) = Inr p"
proof -
  let ?ps = "append_values (filters p) (pagination_params (page p) (limit p))"
  have u: "URLSearchParams (CHR ''?'' # initial_query p) = ?ps"
    by (simp add: initial_query_def URLSearchParams_query)
  have pg: "page p = NaN \<or> (\<exists>k. page p = Fin k \<and> 0 \<le> k \<and> k < 2 ^ 53)"
    using assms(2) page_range[OF assms(1)] by blast
  have 1: "js_sub (Math_max (Fin 1) (parseInt (or_default (params_get ?ps ''page'') ''1''))) (Fin 1)
           = page p"
    unfolding get_serialized using pg by (rule reparse_page)
  have 2: "Math_min (Math_max (Fin 1) (parseInt (or_default (params_get ?ps ''limit'') ''20''))) (Fin 50)
           = limit p"
    unfolding get_serialized using limit_range[OF assms(1)] by (rule reparse_limit)
  have 3: "accumulate_filters allowedFilterKeys ?ps [] = Inr (filters p)"
    using parseUrlParams_filters_ok[OF assms(1)] by (rule accumulate_serialized)
  show ?thesis
    unfolding parseUrlParams_def u Let_def 1 2 3
    by (simp add: Object_entries_def)
qed

text \<open>
  The query \<open>?page=2&limit=10&gender[]=Female&secretKey[]=x&gender%5B%5D=Male&house=Red+x\<close>
  decodes to page index 1, limit 10, \<open>gender = [Female, Male]\<close> and \<open>house = [Red x]\<close>;
  encoding and decoding that state gives it back.
\<close>

theorem C1_normalization_idempotent_witness:
  "parseUrlParams SchoolDataPage_allowedFilterKeys
     (CHR ''?'' # initial_query
        \<lparr>page = Fin 1, limit = Fin 10,
         filters = [(''gender'', [''Female'', ''Male'']), (''house'', [''Red x''])]\<rparr>)
   = Inr \<lparr>page = Fin 1, limit = Fin 10,
          filters = [(''gender'', [''Female'', ''Male'']), (''house'', [''Red x''])]\<rparr>"
proof -
  have a: "parseUrlParams SchoolDataPage_allowedFilterKeys
             ''?page=2&limit=10&gender[]=Female&secretKey[]=x&gender%5B%5D=Male&house=Red+x''
           = Inr \<lparr>page = Fin 1, limit = Fin 10,
                  filters = [(''gender'', [''Female'', ''Male'']), (''house'', [''Red x''])]\<rparr>"
    by code_simp
  show ?thesis
    using C1_normalization_idempotent[OF a] by simp
qed

text \<open>
  The claim as the specification states it fails: \<open>?page=9007199254740994\<close> decodes to the
  page index \<open>9007199254740992\<close> (\<open>2^53 + 1\<close> is no double), which is encoded as
  \<open>page=9007199254740992\<close> and decoded to the page index \<open>9007199254740991\<close>.
\<close>

theorem C1_counterexample:
  "(case parseUrlParams SchoolDataPage_allowedFilterKeys ''?page=9007199254740994'' of
      Inl e \<Rightarrow> False
    | Inr p \<Rightarrow>
        page p = Fin 9007199254740992 \<and>
        (case parseUrlParams SchoolDataPage_allowedFilterKeys (CHR ''?'' # initial_query p) of
           Inl e \<Rightarrow> False
         | Inr p' \<Rightarrow> page p' = Fin 9007199254740991))"
  by code_simp

subsection \<open>The two serializers\<close>

lemma own_order_prefix: "own_order (xs @ ys) \<Longrightarrow> own_order xs"
  by (simp add: own_order_def sorted_wrt_append)

lemma Set_add_fold_distinct:
  "distinct (s @ vs) \<Longrightarrow> foldl (\<lambda>s v. Set_add v s) s vs = s @ vs"
proof (induction vs arbitrary: s)
  case Nil
  then show ?case by simp
next
  case (Cons v vs)
  then have "distinct ((s @ [v]) @ vs)" by simp
  then have "foldl (\<lambda>s v. Set_add v s) (s @ [v]) vs = (s @ [v]) @ vs"
    by (rule Cons.IH)
  moreover have "Set_add v s = s @ [v]" using Cons.prems by (simp add: Set_add_def)
  ultimately show ?case by simp
qed

lemma new_Set_distinct: "distinct vs \<Longrightarrow> new_Set vs = vs"
  using Set_add_fold_distinct[of "[]" vs] by (simp add: new_Set_def)

lemma consolidate_rebuild:
  assumes "own_order (map fst (pre @ fragments))"
    and "\<forall>k \<in> fst ` set fragments. k \<notin> set Object_prototype_names"
    and "\<forall>(k, vs) \<in> set fragments. distinct vs"
  shows "consolidate fragments pre = Inr (pre @ fragments)"
  using assms
proof (induction fragments arbitrary: pre)
  case Nil
  then show ?case by simp
next
  case (Cons fragment fragments)
  obtain k vs where fragment: "fragment = (k, vs)" by (cases fragment)
  have o: "own_order (map fst pre @ [k])"
    using Cons.prems(1) own_order_prefix[of "map fst pre @ [k]" "map fst fragments"]
    by (simp add: fragment)
  then have notin: "k \<notin> fst ` set pre" by (auto simp: own_order_def)
  then have none: "map_of pre k = None" by (simp add: map_of_None_iff)
  have np: "k \<notin> set Object_prototype_names" using Cons.prems(2) by (simp add: fragment)
  then have "k \<noteq> ''__proto__''" using proto_name by blast
  moreover have "new_Set vs = vs" using Cons.prems(3) by (simp add: fragment new_Set_distinct)
  ultimately have a: "assign k (new_Set vs) pre = pre @ [(k, vs)]"
    using o by (simp add: assign_def define_property_last)
  have "consolidate (fragment # fragments) pre = consolidate fragments (pre @ [(k, vs)])"
    using none np by (simp add: fragment a)
  also have "\<dots> = Inr ((pre @ [(k, vs)]) @ fragments)"
  proof (rule Cons.IH)
    show "own_order (map fst ((pre @ [(k, vs)]) @ fragments))"
      using Cons.prems(1) by (simp add: fragment)
    show "\<forall>k \<in> fst ` set fragments. k \<notin> set Object_prototype_names"
      using Cons.prems(2) by simp
    show "\<forall>(k, vs) \<in> set fragments. distinct vs"
      using Cons.prems(3) by simp
  qed
  finally show ?case by (simp add: fragment)
qed

text \<open>
  The two serializers give the same query string for fragments that stand in the order
  of own properties, under keys that objects do not inherit, with value sequences
  without duplicates.
\<close>

lemma serializers_agree_ordered:
  assumes "own_order (map fst fragments)"
    and "\<forall>k \<in> fst ` set fragments. k \<notin> set Object_prototype_names"
    and "\<forall>(k, vs) \<in> set fragments. distinct vs"
  shows "sync_query pn ipp fragments =
           Inr (initial_query \<lparr>page = pn, limit = ipp, filters = fragments\<rparr>)"
proof -
  have "consolidate fragments [] = Inr fragments"
    using consolidate_rebuild[of "[]" fragments] assms by simp
  then show ?thesis
    by (simp add: sync_query_def initial_query_def Object_entries_def)
qed

subsection \<open>The whitelist\<close>

lemma keys_define_property:
  "fst ` set (define_property k v obj) \<subseteq> insert k (fst ` set obj)"
  using set_define_property[of k v obj] by auto

lemma keys_assign: "fst ` set (assign k v obj) \<subseteq> insert k (fst ` set obj)"
  using set_assign[of k v obj] by auto

lemma keys_define_property_in:
  "fst ` set obj \<subseteq> A \<Longrightarrow> k \<in> A \<Longrightarrow> fst ` set (define_property k v obj) \<subseteq> A"
  by (rule subset_trans[OF keys_define_property]) simp

lemma keys_assign_in:
  "fst ` set obj \<subseteq> A \<Longrightarrow> k \<in> A \<Longrightarrow> fst ` set (assign k v obj) \<subseteq> A"
  by (rule subset_trans[OF keys_assign]) simp

lemma keys_initialTemp: "fst ` set (initialTemp allowed applied) \<subseteq> set allowed"
  using valid_initialTemp[of allowed applied] by (auto simp: valid_temp_def)

lemma keys_reset:
  "fst ` set acc \<subseteq> set allowed \<Longrightarrow> set ks \<subseteq> set allowed \<Longrightarrow>
   fst ` set (foldl (\<lambda>resetTemp key. assign key [] resetTemp) acc ks) \<subseteq> set allowed"
proof (induction ks arbitrary: acc)
  case Nil
  then show ?case by simp
next
  case (Cons k ks)
  have "fst ` set (assign k [] acc) \<subseteq> set allowed"
    using Cons.prems by (intro keys_assign_in) simp_all
  then show ?case using Cons.IH Cons.prems(2) by simp
qed

lemma keys_allowed_handle:
  assumes "keys_allowed allowed st"
  shows "keys_allowed allowed (handle allowed e st)"
proof (cases e)
  case OpenFilter
  then show ?thesis using assms
    by (simp add: handle_def keys_allowed_def openFilter_def keys_initialTemp)
next
  case (FilterChange k vs)
  then show ?thesis using assms
    by (simp add: handle_def keys_allowed_def handleFilterChange_def keys_define_property_in)
next
  case ApplyFilters
  then show ?thesis using assms
    by (auto simp: handle_def keys_allowed_def applyFilters_def Object_entries_def)
next
  case ResetFilters
  then show ?thesis using assms keys_reset[of "[]" allowed allowed]
    by (simp add: handle_def keys_allowed_def resetFilters_def)
next
  case CloseFilter
  then show ?thesis using assms
    by (simp add: handle_def keys_allowed_def handleClose_def keys_initialTemp)
next
  case (ChangePage n)
  then show ?thesis using assms
    by (simp add: handle_def keys_allowed_def handleChangePage_def)
next
  case (ChangeRowsPerPage v)
  then show ?thesis using assms
    by (simp add: handle_def keys_allowed_def handleChangeRowsPerPage_def)
next
  case CloseSnackbar
  then show ?thesis using assms
    by (simp add: handle_def keys_allowed_def closeSnackbar_def)
next
  case (Settle i out)
  then show ?thesis using assms
    by (simp add: handle_def keys_allowed_def fetchData_settled_frame fetchData_settled_view_frame)
qed

lemma keys_allowed_step: "keys_allowed allowed st \<Longrightarrow> keys_allowed allowed (step allowed e st)"
  using keys_allowed_handle[of allowed st e]
  by (simp add: keys_allowed_def step_display)

lemma keys_allowed_run: "keys_allowed allowed st \<Longrightarrow> keys_allowed allowed (run allowed es st)"
  unfolding run_def
proof (induction es arbitrary: st)
  case Nil
  then show ?case by simp
next
  case (Cons e es)
  then show ?case by (simp add: keys_allowed_step)
qed

lemma filters_ok_keys: "filters_ok allowed fragments \<Longrightarrow> fst ` set fragments \<subseteq> set allowed"
  by (auto simp: filters_ok_def)

lemma mount_parse:
  assumes "mount allowed search = Inr st0"
  shows "\<exists>p. parseUrlParams allowed search = Inr p \<and> appliedFilter st0 = filters p \<and>
             tempFilters st0 = [] \<and> pageNumber st0 = page p \<and> itemsPerPage st0 = limit p"
  using assms
  by (auto simp: mount_def fetchData_start_def initial_view_def report.defs view.defs
      split: sum.splits)

lemma keys_allowed_mount:
  assumes "mount allowed search = Inr st0"
  shows "keys_allowed allowed st0"
proof -
  obtain p where p: "parseUrlParams allowed search = Inr p"
    and a: "appliedFilter st0 = filters p" and t: "tempFilters st0 = []"
    using mount_parse[OF assms] by blast
  have "fst ` set (filters p) \<subseteq> set allowed"
    using parseUrlParams_filters_ok[OF p] by (rule filters_ok_keys)
  then show ?thesis by (simp add: keys_allowed_def a t)
qed

lemma keys_replace_value: "fst ` set (replace_value k v obj) = fst ` set obj"
  using map_fst_replace_value[of k v obj] by (metis set_map)

lemma keys_consolidate:
  "consolidate fragments acc = Inr obj \<Longrightarrow>
   fst ` set obj \<subseteq> fst ` set acc \<union> fst ` set fragments"
proof (induction fragments arbitrary: acc)
  case Nil
  then show ?case by simp
next
  case (Cons fragment fragments)
  obtain k vs where fragment: "fragment = (k, vs)" by (cases fragment)
  show ?case
  proof (cases "map_of acc k")
    case (Some s)
    then have "consolidate fragments
                 (replace_value k (foldl (\<lambda>s v. Set_add v s) s vs) acc) = Inr obj"
      using Cons.prems by (simp add: fragment)
    from Cons.IH[OF this] show ?thesis by (auto simp: keys_replace_value fragment)
  next
    case None
    show ?thesis
    proof (cases "k \<in> set Object_prototype_names")
      case True
      then have "consolidate fragments acc = Inr obj"
        using Cons.prems None by (simp add: fragment split: if_splits)
      from Cons.IH[OF this] show ?thesis by auto
    next
      case False
      then have "consolidate fragments (assign k (new_Set vs) acc) = Inr obj"
        using Cons.prems None by (simp add: fragment)
      from Cons.IH[OF this] have "fst ` set obj \<subseteq> fst ` set (assign k (new_Set vs) acc) \<union> fst ` set fragments" .
      moreover have "fst ` set (assign k (new_Set vs) acc) \<subseteq> insert k (fst ` set acc)"
        by (rule keys_assign)
      ultimately show ?thesis
        unfolding fragment by (simp add: subset_iff) blast
    qed
  qed
qed

lemma filter_entries_Cons:
  "filter_entries ((k, vs) # fragments) = map (\<lambda>v. (k @ ''[]'', v)) vs @ filter_entries fragments"
  by (simp add: filter_entries_def)

lemma names_filter_entries:
  "name \<in> fst ` set (filter_entries fragments) \<Longrightarrow> \<exists>k \<in> fst ` set fragments. name = k @ ''[]''"
proof (induction fragments)
  case Nil
  then show ?case by (simp add: filter_entries_def)
next
  case (Cons fragment fragments)
  obtain k vs where fragment: "fragment = (k, vs)" by (cases fragment)
  from Cons.prems
  have "name \<in> fst ` set (map (\<lambda>v. (k @ ''[]'', v)) vs) \<or> name \<in> fst ` set (filter_entries fragments)"
    unfolding fragment filter_entries_Cons by auto
  then show ?case
  proof
    assume "name \<in> fst ` set (map (\<lambda>v. (k @ ''[]'', v)) vs)"
    then have "name = k @ ''[]''" by auto
    then show ?thesis by (simp add: fragment)
  next
    assume "name \<in> fst ` set (filter_entries fragments)"
    then obtain k' where "k' \<in> fst ` set fragments" and "name = k' @ ''[]''"
      using Cons.IH by blast
    then show ?thesis by auto
  qed
qed

lemma names_serialized:
  assumes "fst ` set fragments \<subseteq> set allowed"
    and "name \<in> fst ` set (URLSearchParams
            (params_toString (append_values fragments (pagination_params pn ipp))))"
  shows "name = ''page'' \<or> name = ''limit'' \<or> (\<exists>k \<in> set allowed. name = k @ ''[]'')"
proof -
  have "name \<in> fst ` set (pagination_params pn ipp @ filter_entries fragments)"
    using assms(2) by (simp only: URLSearchParams_toString append_values_entries)
  then consider "name = ''page''" | "name = ''limit''" | "name \<in> fst ` set (filter_entries fragments)"
    by (auto simp: pagination_params_eq)
  then show ?thesis
  proof cases
    case 1
    then show ?thesis by simp
  next
    case 2
    then show ?thesis by simp
  next
    case 3
    then obtain k where "k \<in> fst ` set fragments" and "name = k @ ''[]''"
      using names_filter_entries by blast
    then show ?thesis using assms(1) by blast
  qed
qed

text \<open>
  Claim C4.  Whatever the query string the component is mounted on and whatever events
  follow, every key of the decoded filters, of \<open>appliedFilter\<close> and of \<open>tempFilters\<close> is a
  member of \<open>allowedFilterKeys\<close>, and every parameter of a query string serialized from
  the state, by the initialization effect or by the URL-sync effect, is one of the two
  pagination parameters \<open>page\<close> and \<open>limit\<close> that the serializers write themselves or a
  filter parameter \<open>k[]\<close> of an allowed key \<open>k\<close>.  So a key that is not allowed never
  appears as a filter, in the state or in a URL.
\<close>

theorem C4_whitelist:
  assumes "mount allowedFilterKeys search = Inr st0"
  shows "(\<exists>p. parseUrlParams allowedFilterKeys search = Inr p \<and> appliedFilter st0 = filters p \<and>
            fst ` set (filters p) \<subseteq> set allowedFilterKeys \<and>
            (\<forall>name \<in> fst ` set (URLSearchParams (initial_query p)).
               name = ''page'' \<or> name = ''limit'' \<or> (\<exists>k \<in> set allowedFilterKeys. name = k @ ''[]'')))
       \<and> fst ` set (appliedFilter (run allowedFilterKeys es st0)) \<subseteq> set allowedFilterKeys
       \<and> fst ` set (tempFilters (run allowedFilterKeys es st0)) \<subseteq> set allowedFilterKeys
       \<and> (\<forall>q. sync_query (pageNumber (run allowedFilterKeys es st0))
                 (itemsPerPage (run allowedFilterKeys es st0))
                 (appliedFilter (run allowedFilterKeys es st0)) = Inr q \<longrightarrow>
              (\<forall>name \<in> fst ` set (URLSearchParams q).
                 name = ''page'' \<or> name = ''limit'' \<or> (\<exists>k \<in> set allowedFilterKeys. name = k @ ''[]'')))"
proof (intro conjI allI impI)
  obtain p where p: "parseUrlParams allowedFilterKeys search = Inr p"
    and a: "appliedFilter st0 = filters p"
    using mount_parse[OF assms] by blast
  have k: "fst ` set (filters p) \<subseteq> set allowedFilterKeys"
    using parseUrlParams_filters_ok[OF p] by (rule filters_ok_keys)
  have "\<forall>name \<in> fst ` set (URLSearchParams (initial_query p)).
          name = ''page'' \<or> name = ''limit'' \<or> (\<exists>k \<in> set allowedFilterKeys. name = k @ ''[]'')"
  proof (intro ballI)
    fix name
    assume "name \<in> fst ` set (URLSearchParams (initial_query p))"
    then show "name = ''page'' \<or> name = ''limit'' \<or> (\<exists>k \<in> set allowedFilterKeys. name = k @ ''[]'')"
      unfolding initial_query_def by (rule names_serialized[OF k])
  qed
  then show "\<exists>p. parseUrlParams allowedFilterKeys search = Inr p \<and> appliedFilter st0 = filters p \<and>
            fst ` set (filters p) \<subseteq> set allowedFilterKeys \<and>
            (\<forall>name \<in> fst ` set (URLSearchParams (initial_query p)).
               name = ''page'' \<or> name = ''limit'' \<or> (\<exists>k \<in> set allowedFilterKeys. name = k @ ''[]''))"
    using p a k by blast
next
  have inv: "keys_allowed allowedFilterKeys (run allowedFilterKeys es st0)"
    using keys_allowed_mount[OF assms] by (rule keys_allowed_run)
  show "fst ` set (appliedFilter (run allowedFilterKeys es st0)) \<subseteq> set allowedFilterKeys"
    using inv by (simp add: keys_allowed_def)
  show "fst ` set (tempFilters (run allowedFilterKeys es st0)) \<subseteq> set allowedFilterKeys"
    using inv by (simp add: keys_allowed_def)
  fix q
  assume q: "sync_query (pageNumber (run allowedFilterKeys es st0))
                 (itemsPerPage (run allowedFilterKeys es st0))
                 (appliedFilter (run allowedFilterKeys es st0)) = Inr q"
  let ?st = "run allowedFilterKeys es st0"
  from q obtain obj where c: "consolidate (appliedFilter ?st) [] = Inr obj"
    and qe: "q = params_toString (append_values obj (pagination_params (pageNumber ?st) (itemsPerPage ?st)))"
    by (auto simp: sync_query_def Object_entries_def split: sum.splits)
  from keys_consolidate[OF c] have s1: "fst ` set obj \<subseteq> fst ` set (appliedFilter ?st)"
    by simp
  from inv have s2: "fst ` set (appliedFilter ?st) \<subseteq> set allowedFilterKeys"
    by (simp add: keys_allowed_def)
  from s1 s2 have s3: "fst ` set obj \<subseteq> set allowedFilterKeys"
    by (rule subset_trans)
  show "\<forall>name \<in> fst ` set (URLSearchParams q).
                 name = ''page'' \<or> name = ''limit'' \<or> (\<exists>k \<in> set allowedFilterKeys. name = k @ ''[]'')"
  proof (intro ballI)
    fix name
    assume "name \<in> fst ` set (URLSearchParams q)"
    then show "name = ''page'' \<or> name = ''limit'' \<or> (\<exists>k \<in> set allowedFilterKeys. name = k @ ''[]'')"
      unfolding qe by (rule names_serialized[OF s3])
  qed
qed

text \<open>
  The query names \<open>secretKey\<close>, which \<open>SchoolDataPage\<close> does not allow.  After the first
  response, opening the drawer, choosing a house and applying, all keys are allowed ones
  and \<open>secretKey\<close> is not among them.
\<close>

theorem C4_whitelist_witness:
  "(case mount SchoolDataPage_allowedFilterKeys ''?secretKey[]=x&gender[]=Female'' of
      Inl e \<Rightarrow> False
    | Inr st0 \<Rightarrow>
        fst ` set (appliedFilter (run SchoolDataPage_allowedFilterKeys
          [Settle 0 (Fulfilled (Object (Array []) (Array []) (Some (Fin 0)))), OpenFilter,
           FilterChange ''house'' [''Red''], ApplyFilters] st0))
          \<subseteq> set SchoolDataPage_allowedFilterKeys
        \<and> ''secretKey'' \<notin> fst ` set (appliedFilter (run SchoolDataPage_allowedFilterKeys
          [Settle 0 (Fulfilled (Object (Array []) (Array []) (Some (Fin 0)))), OpenFilter,
           FilterChange ''house'' [''Red''], ApplyFilters] st0)))"
proof -
  have "case mount SchoolDataPage_allowedFilterKeys ''?secretKey[]=x&gender[]=Female'' of
          Inl e \<Rightarrow> False | Inr st0 \<Rightarrow> True"
    by code_simp
  then obtain st0 where
    st0: "mount SchoolDataPage_allowedFilterKeys ''?secretKey[]=x&gender[]=Female'' = Inr st0"
    by (cases "mount SchoolDataPage_allowedFilterKeys ''?secretKey[]=x&gender[]=Female''") auto
  let ?es = "[Settle 0 (Fulfilled (Object (Array []) (Array []) (Some (Fin 0)))), OpenFilter,
           FilterChange ''house'' [''Red''], ApplyFilters]"
  have s: "fst ` set (appliedFilter (run SchoolDataPage_allowedFilterKeys ?es st0))
             \<subseteq> set SchoolDataPage_allowedFilterKeys"
    using C4_whitelist[OF st0, of ?es] by simp
  have "''secretKey'' \<notin> set SchoolDataPage_allowedFilterKeys"
    by (simp add: SchoolDataPage_allowedFilterKeys_def)
  with s have "''secretKey'' \<notin> fst ` set (appliedFilter (run SchoolDataPage_allowedFilterKeys ?es st0))"
    by blast
  with s show ?thesis by (simp add: st0)
qed

lemma whitelist_example:
  "(case mount SchoolDataPage_allowedFilterKeys ''?secretKey[]=x&gender[]=Female'' of
      Inl e \<Rightarrow> False
    | Inr st0 \<Rightarrow>
        appliedFilter st0 = [(''gender'', [''Female''])]
        \<and> appliedFilter (run SchoolDataPage_allowedFilterKeys
          [Settle 0 (Fulfilled (Object (Array []) (Array []) (Some (Fin 0)))), OpenFilter,
           FilterChange ''house'' [''Red''], ApplyFilters] st0)
          = [(''gender'', [''Female'']), (''house'', [''Red''])]
        \<and> sync_query (pageNumber st0) (itemsPerPage st0) (appliedFilter st0)
          = Inr ''page=1&limit=20&gender%5B%5D=Female'')"
  by code_simp

subsection \<open>The states that can be reached\<close>

lemma options_not_inherited:
  "v \<in> set (getMockFilterOptions (getFilterName k)) \<Longrightarrow> k \<notin> set Object_prototype_names"
  by (auto simp: getMockFilterOptions_def getFilterName_def Object_prototype_names_def
      split: if_splits)

lemma own_order_filter: "own_order (map fst xs) \<Longrightarrow> own_order (map fst (filter P xs))"
proof (induction xs)
  case Nil
  then show ?case by simp
next
  case (Cons x xs)
  then have ih: "own_order (map fst (filter P xs))" by (simp add: own_order_def)
  show ?case
  proof (cases "P x")
    case True
    have "fst x \<notin> fst ` set (filter P xs)" using Cons.prems by (auto simp: own_order_def)
    moreover have "\<forall>y \<in> set (filter P xs). key_before (fst x) (fst y)"
      using Cons.prems by (auto simp: own_order_def)
    ultimately show ?thesis using ih True by (auto simp: own_order_def)
  next
    case False
    then show ?thesis using ih by simp
  qed
qed

lemma own_order_Nil: "own_order []"
  by (simp add: own_order_def)

lemma own_order_initialTemp_fold:
  "own_order (map fst temp) \<Longrightarrow>
   own_order (map fst (foldl (\<lambda>temp (key, values).
              case validOptions allowed key of
                Some opts \<Rightarrow> assign key (filter (\<lambda>v. v \<in> set opts) values) temp
              | None \<Rightarrow> temp) temp applied))"
proof (induction applied arbitrary: temp)
  case Nil
  then show ?case by simp
next
  case (Cons fragment applied)
  obtain k vs where f: "fragment = (k, vs)" by (cases fragment)
  have "own_order (map fst (case validOptions allowed k of
                Some opts \<Rightarrow> assign k (filter (\<lambda>v. v \<in> set opts) vs) temp
              | None \<Rightarrow> temp))"
    using Cons.prems by (simp add: own_order_assign split: option.splits)
  then show ?case using Cons.IH by (simp add: f)
qed

lemma own_order_initialTemp: "own_order (map fst (initialTemp allowed applied))"
  unfolding initialTemp_def by (rule own_order_initialTemp_fold) (simp add: own_order_def)

lemma own_order_reset:
  "own_order (map fst acc) \<Longrightarrow>
   own_order (map fst (foldl (\<lambda>resetTemp key. assign key [] resetTemp) acc ks))"
proof (induction ks arbitrary: acc)
  case Nil
  then show ?case by simp
next
  case (Cons k ks)
  then show ?case by (simp add: own_order_assign)
qed

lemma valid_temp_reset:
  "valid_temp allowed acc \<Longrightarrow> set ks \<subseteq> set allowed \<Longrightarrow>
   valid_temp allowed (foldl (\<lambda>resetTemp key. assign key [] resetTemp) acc ks)"
proof (induction ks arbitrary: acc)
  case Nil
  then show ?case by simp
next
  case (Cons k ks)
  have "valid_temp allowed (assign k [] acc)"
    using Cons.prems by (intro valid_temp_assign) simp_all
  then show ?case using Cons.IH Cons.prems(2) by simp
qed

lemma valid_temp_define_property:
  assumes "valid_temp allowed temp" and "k \<in> set allowed"
    and "set vs \<subseteq> set (getMockFilterOptions (getFilterName k))"
  shows "valid_temp allowed (define_property k vs temp)"
  unfolding valid_temp_def
proof (intro ballI)
  fix entry
  assume "entry \<in> set (define_property k vs temp)"
  then have "entry = (k, vs) \<or> entry \<in> set temp"
    using set_define_property[of k vs temp] by auto
  then show "case entry of (k, vs) \<Rightarrow>
      k \<in> set allowed \<and> set vs \<subseteq> set (getMockFilterOptions (getFilterName k))"
    using assms by (auto simp: valid_temp_def)
qed

lemma applied_not_inherited:
  assumes "valid_temp allowed temp"
  shows "list_all (\<lambda>k. k \<notin> set Object_prototype_names)
           (map fst (filter (\<lambda>(key, values). values \<noteq> []) temp))"
  unfolding list_all_iff
proof (intro ballI)
  fix k
  assume "k \<in> set (map fst (filter (\<lambda>(key, values). values \<noteq> []) temp))"
  then obtain vs where m: "(k, vs) \<in> set temp" and ne: "vs \<noteq> []" by auto
  then obtain v where "v \<in> set vs" by (cases vs) auto
  moreover have "set vs \<subseteq> set (getMockFilterOptions (getFilterName k))"
    using assms m by (auto simp: valid_temp_def)
  ultimately have "v \<in> set (getMockFilterOptions (getFilterName k))" by blast
  then show "k \<notin> set Object_prototype_names" by (rule options_not_inherited)
qed

lemma well_formed_handle:
  assumes "well_formed allowed st" and "enabled allowed e st"
  shows "well_formed allowed (handle allowed e st)"
proof (cases e)
  case OpenFilter
  then show ?thesis using assms(1)
    by (simp add: handle_def well_formed_def openFilter_def own_order_initialTemp
        valid_initialTemp)
next
  case (FilterChange k vs)
  have k: "k \<in> set allowed" and vs: "set vs \<subseteq> set (getMockFilterOptions (getFilterName k))"
    using assms(2) by (auto simp: FilterChange enabled_def list_all_iff)
  have vt: "valid_temp allowed (tempFilters st)" and oo: "own_order (map fst (tempFilters st))"
    using assms(1) by (simp_all add: well_formed_def)
  have "valid_temp allowed (define_property k vs (tempFilters st))"
    using vt k vs by (rule valid_temp_define_property)
  moreover have "own_order (map fst (define_property k vs (tempFilters st)))"
    using oo by (rule own_order_define_property)
  ultimately show ?thesis using assms(1) k
    by (simp add: FilterChange handle_def well_formed_def handleFilterChange_def)
next
  case ApplyFilters
  have vt: "valid_temp allowed (tempFilters st)" and oo: "own_order (map fst (tempFilters st))"
    using assms(1) by (simp_all add: well_formed_def)
  have "own_order (map fst (filter (\<lambda>(key, values). values \<noteq> []) (tempFilters st)))"
    using oo by (rule own_order_filter)
  moreover have "list_all (\<lambda>k. k \<notin> set Object_prototype_names)
           (map fst (filter (\<lambda>(key, values). values \<noteq> []) (tempFilters st)))"
    using vt by (rule applied_not_inherited)
  ultimately show ?thesis using assms(1)
    by (simp add: ApplyFilters handle_def well_formed_def applyFilters_def Object_entries_def)
next
  case ResetFilters
  have "own_order (map fst (foldl (\<lambda>resetTemp key. assign key [] resetTemp) [] allowed))"
    by (rule own_order_reset) (simp add: own_order_def)
  moreover have "valid_temp allowed (foldl (\<lambda>resetTemp key. assign key [] resetTemp) [] allowed)"
    by (rule valid_temp_reset) (simp_all add: valid_temp_def)
  ultimately show ?thesis
    by (simp add: ResetFilters handle_def well_formed_def resetFilters_def own_order_def)
next
  case CloseFilter
  then show ?thesis using assms(1)
    by (simp add: handle_def well_formed_def handleClose_def own_order_initialTemp
        valid_initialTemp)
next
  case (ChangePage n)
  then show ?thesis using assms(1)
    by (simp add: handle_def well_formed_def handleChangePage_def)
next
  case (ChangeRowsPerPage v)
  then show ?thesis using assms(1)
    by (simp add: handle_def well_formed_def handleChangeRowsPerPage_def)
next
  case CloseSnackbar
  then show ?thesis using assms(1)
    by (simp add: handle_def well_formed_def closeSnackbar_def)
next
  case (Settle i out)
  then show ?thesis using assms(1)
    by (simp add: handle_def well_formed_def fetchData_settled_frame
        fetchData_settled_view_frame)
qed

lemma well_formed_step:
  "well_formed allowed st \<Longrightarrow> enabled allowed e st \<Longrightarrow> well_formed allowed (step allowed e st)"
  using well_formed_handle[of allowed st e]
  by (simp add: well_formed_def step_display)

lemma well_formed_run:
  "well_formed allowed st \<Longrightarrow> feasible allowed es st \<Longrightarrow> well_formed allowed (run allowed es st)"
  unfolding run_def
proof (induction es arbitrary: st)
  case Nil
  then show ?case by simp
next
  case (Cons e es)
  then show ?case by (simp add: well_formed_step)
qed

lemma well_formed_mount:
  assumes "mount allowed search = Inr st0"
  shows "well_formed allowed st0"
proof -
  obtain p where p: "parseUrlParams allowed search = Inr p"
    and a: "appliedFilter st0 = filters p" and t: "tempFilters st0 = []"
    using mount_parse[OF assms] by blast
  have "filters_ok allowed (filters p)"
    using p by (rule parseUrlParams_filters_ok)
  then have "own_order (map fst (filters p))"
    and "list_all (\<lambda>k. k \<notin> set Object_prototype_names) (map fst (filters p))"
    by (auto simp: filters_ok_def list_all_iff)
  then show ?thesis by (simp add: well_formed_def a t own_order_def valid_temp_def)
qed

text \<open>
  Claim C10.  In every state that the component reaches from a mount, by events that can
  arrive, the keys of the filter fragments are pairwise distinct; and when the value
  sequences have no duplicates, the serializer of the initialization effect and the
  serializer of the URL-sync effect give the same query string for the page, the page
  size and the fragments of that state.
\<close>

theorem C10_serializers_agree:
  assumes "mount allowedFilterKeys search = Inr st0"
    and "feasible allowedFilterKeys es st0"
    and "\<forall>(k, vs) \<in> set (appliedFilter (run allowedFilterKeys es st0)). distinct vs"
  shows "(let st = run allowedFilterKeys es st0 in
          distinct (map fst (appliedFilter st)) \<and>
          sync_query (pageNumber st) (itemsPerPage st) (appliedFilter st) =
            Inr (initial_query
                   \<lparr>page = pageNumber st, limit = itemsPerPage st, filters = appliedFilter st\<rparr>))"
proof -
  define st where "st = run allowedFilterKeys es st0"
  have "well_formed allowedFilterKeys st"
    unfolding st_def using well_formed_mount[OF assms(1)] assms(2) by (rule well_formed_run)
  then have o: "own_order (map fst (appliedFilter st))"
    and n: "\<forall>k \<in> fst ` set (appliedFilter st). k \<notin> set Object_prototype_names"
    by (auto simp: well_formed_def list_all_iff)
  have d: "\<forall>(k, vs) \<in> set (appliedFilter st). distinct vs"
    using assms(3) by (simp add: st_def)
  have "sync_query (pageNumber st) (itemsPerPage st) (appliedFilter st) =
          Inr (initial_query
                 \<lparr>page = pageNumber st, limit = itemsPerPage st, filters = appliedFilter st\<rparr>)"
    using o n d by (rule serializers_agree_ordered)
  moreover have "distinct (map fst (appliedFilter st))"
    using o by (simp add: own_order_def)
  ultimately show ?thesis
    by (simp add: st_def[symmetric] Let_def)
qed

text \<open>
  The component is mounted on page 2, limit 10, \<open>gender = [Female, Male]\<close> and
  \<open>house = [Red]\<close>; after the first response the drawer is opened, class 8 is selected and
  the filters are applied.  Both serializers give the same query string for the state
  that results.
\<close>

theorem C10_serializers_agree_witness:
  "(case mount SchoolDataPage_allowedFilterKeys
           ''?page=2&limit=10&gender[]=Female&gender[]=Male&house[]=Red'' of
      Inl e \<Rightarrow> False
    | Inr st0 \<Rightarrow>
        sync_query
          (pageNumber (run SchoolDataPage_allowedFilterKeys
             [Settle 0 (Fulfilled all_records), OpenFilter,
              FilterChange ''studentClass'' [''8''], ApplyFilters] st0))
          (itemsPerPage (run SchoolDataPage_allowedFilterKeys
             [Settle 0 (Fulfilled all_records), OpenFilter,
              FilterChange ''studentClass'' [''8''], ApplyFilters] st0))
          (appliedFilter (run SchoolDataPage_allowedFilterKeys
             [Settle 0 (Fulfilled all_records), OpenFilter,
              FilterChange ''studentClass'' [''8''], ApplyFilters] st0))
        = Inr (initial_query
            \<lparr>page = pageNumber (run SchoolDataPage_allowedFilterKeys
               [Settle 0 (Fulfilled all_records), OpenFilter,
                FilterChange ''studentClass'' [''8''], ApplyFilters] st0),
             limit = itemsPerPage (run SchoolDataPage_allowedFilterKeys
               [Settle 0 (Fulfilled all_records), OpenFilter,
                FilterChange ''studentClass'' [''8''], ApplyFilters] st0),
             filters = appliedFilter (run SchoolDataPage_allowedFilterKeys
               [Settle 0 (Fulfilled all_records), OpenFilter,
                FilterChange ''studentClass'' [''8''], ApplyFilters] st0)\<rparr>))"
proof -
  let ?q = "''?page=2&limit=10&gender[]=Female&gender[]=Male&house[]=Red''"
  let ?es = "[Settle 0 (Fulfilled all_records), OpenFilter,
              FilterChange ''studentClass'' [''8''], ApplyFilters]"
  have c: "case mount SchoolDataPage_allowedFilterKeys ?q of
          Inl e \<Rightarrow> False
        | Inr st0 \<Rightarrow>
            feasible SchoolDataPage_allowedFilterKeys ?es st0 \<and>
            list_all (\<lambda>(k, vs). distinct vs)
              (appliedFilter (run SchoolDataPage_allowedFilterKeys ?es st0))"
    by code_simp
  then obtain st0 where
    st0: "mount SchoolDataPage_allowedFilterKeys ?q = Inr st0"
    by (cases "mount SchoolDataPage_allowedFilterKeys ?q") auto
  have f: "feasible SchoolDataPage_allowedFilterKeys ?es st0"
    and d: "\<forall>(k, vs) \<in> set (appliedFilter (run SchoolDataPage_allowedFilterKeys ?es st0)).
              distinct vs"
    using c by (simp_all add: st0 list_all_iff)
  show ?thesis
    using C10_serializers_agree[OF st0 f d] by (simp add: st0 Let_def)
qed

lemma serializers_example:
  "(case mount SchoolDataPage_allowedFilterKeys
           ''?page=2&limit=10&gender[]=Female&gender[]=Male&house[]=Red'' of
      Inl e \<Rightarrow> False
    | Inr st0 \<Rightarrow>
        sync_query
          (pageNumber (run SchoolDataPage_allowedFilterKeys
             [Settle 0 (Fulfilled all_records), OpenFilter,
              FilterChange ''studentClass'' [''8''], ApplyFilters] st0))
          (itemsPerPage (run SchoolDataPage_allowedFilterKeys
             [Settle 0 (Fulfilled all_records), OpenFilter,
              FilterChange ''studentClass'' [''8''], ApplyFilters] st0))
          (appliedFilter (run SchoolDataPage_allowedFilterKeys
             [Settle 0 (Fulfilled all_records), OpenFilter,
              FilterChange ''studentClass'' [''8''], ApplyFilters] st0))
        = Inr ''page=2&limit=10&gender%5B%5D=Female&gender%5B%5D=Male&house%5B%5D=Red&studentClass%5B%5D=8'')"
  by code_simp

lemma parseInt_options:
  "parseInt ''5'' = Fin 5" "parseInt ''10'' = Fin 10" "parseInt ''50'' = Fin 50"
  by code_simp+

lemma page_sizes_handle:
  assumes "page_sizes_reached st" and "enabled allowed e st"
  shows "page_sizes_reached (handle allowed e st)"
proof (cases e)
  case OpenFilter
  then show ?thesis using assms(1)
    by (simp add: handle_def page_sizes_reached_def openFilter_def)
next
  case (FilterChange k vs)
  then show ?thesis using assms(1)
    by (simp add: handle_def page_sizes_reached_def handleFilterChange_def)
next
  case ApplyFilters
  then show ?thesis using assms(1)
    by (simp add: handle_def page_sizes_reached_def applyFilters_def)
next
  case ResetFilters
  then show ?thesis using assms(1)
    by (simp add: handle_def page_sizes_reached_def resetFilters_def)
next
  case CloseFilter
  then show ?thesis using assms(1)
    by (simp add: handle_def page_sizes_reached_def handleClose_def)
next
  case (ChangePage n)
  then show ?thesis using assms(1)
    by (simp add: handle_def page_sizes_reached_def handleChangePage_def)
next
  case (ChangeRowsPerPage v)
  have "v \<in> set rowsPerPageOptions" using assms(2) by (simp add: ChangeRowsPerPage enabled_def)
  then have "page_size_reached (parseInt v)"
    by (auto simp: rowsPerPageOptions_def page_size_reached_def parseInt_options parseInt_20)
  then show ?thesis using assms(1)
    by (simp add: ChangeRowsPerPage handle_def page_sizes_reached_def handleChangeRowsPerPage_def)
next
  case CloseSnackbar
  then show ?thesis using assms(1)
    by (simp add: handle_def page_sizes_reached_def closeSnackbar_def)
next
  case (Settle i out)
  have "set (remove_nth i (pending st)) \<subseteq> set (pending st)"
    using set_take_subset[of i "pending st"] set_drop_subset[of "Suc i" "pending st"]
    by (auto simp: remove_nth_def)
  then have "list_all (\<lambda>f. page_size_reached (f_itemsPerPage f)) (remove_nth i (pending st))"
    using assms(1) by (auto simp: page_sizes_reached_def list_all_iff)
  then show ?thesis using assms(1)
    by (simp add: Settle handle_def page_sizes_reached_def fetchData_settled_frame
        fetchData_settled_view_frame)
qed

lemma page_sizes_step:
  assumes "page_sizes_reached st" and "enabled allowed e st"
  shows "page_sizes_reached (step allowed e st)"
  using page_sizes_handle[OF assms]
  by (simp add: step_def Let_def fetchData_start_def page_sizes_reached_def)

lemma page_sizes_run:
  "page_sizes_reached st \<Longrightarrow> feasible allowed es st \<Longrightarrow> page_sizes_reached (run allowed es st)"
  unfolding run_def
proof (induction es arbitrary: st)
  case Nil
  then show ?case by simp
next
  case (Cons e es)
  then show ?case by (simp add: page_sizes_step)
qed

lemma page_sizes_mount:
  assumes "mount allowed search = Inr st0"
  shows "page_sizes_reached st0"
proof -
  obtain p where p: "parseUrlParams allowed search = Inr p"
    using assms by (auto simp: mount_def split: sum.splits)
  then have st0: "st0 = fetchData_start
                 (initial_view\<lparr>pageNumber := page p, itemsPerPage := limit p,
                    appliedFilter := filters p, initialized := True\<rparr>)"
    using assms by (simp add: mount_def)
  have "page_size_reached (limit p)"
    using limit_range[OF p] by (auto simp: page_size_reached_def)
  then show ?thesis
    by (simp add: st0 page_sizes_reached_def fetchData_start_def initial_view_def view.defs
        report.defs)
qed

text \<open>
  In every state that is reached, the page size of the state and of every pending fetch
  is a number from 1 to 50, or \<open>NaN\<close>.
\<close>

lemma page_sizes_of_reached:
  "mount allowed search = Inr st0 \<Longrightarrow> feasible allowed es st0 \<Longrightarrow>
   page_sizes_reached (run allowed es st0)"
  using page_sizes_mount page_sizes_run by blast

end
